theory Spec2Isabelle
  imports Main
begin

section \<open>Static data of \<open>src/App.js\<close>\<close>

text \<open>
  The application is one React component, \<open>App\<close>, holding seven \<open>useState\<close> cells, and
  six view components that receive callbacks. The model below keeps the cells as the
  fields of a record, each callback as a function on that record, and the three
  \<open>useEffect\<close> hooks as functions run after every event. Events are handled one at a
  time, each followed by the effects, as React does for clicks and timer callbacks; the
  delays of the timers are kept as numbers and not interpreted.

  JavaScript strings are modelled as \<open>string\<close>; the only character outside ASCII in
  the data, the bullet of the arrive-point labels, is written as its three UTF-8 bytes.
\<close>

record arrivePoint =
  ap_id :: string
  ap_label :: string
  ap_type :: string

record location =
  loc_id :: string
  loc_name :: string
  loc_subtitle :: string
  arrivePoints :: "arrivePoint list"

record merchant =
  m_id :: string
  m_name :: string
  m_category :: string
  etaMins :: nat
  m_open :: bool
  chownowUrl :: string
  m_tags :: "string list"

definition bullet :: string where
  "bullet = [CHR 0xE2, CHR 0x80, CHR 0xA2]"

definition LOCATIONS :: "location list" where
  "LOCATIONS =
    [ \<lparr>loc_id = ''vp-launch-fishers'', loc_name = ''Launch Fishers'',
       loc_subtitle = ''Shared pickup'',
       arrivePoints =
         [ \<lparr>ap_id = ''AP-101'', ap_label = ''AP-101 '' @ bullet @ '' Lobby'', ap_type = ''shared''\<rparr>,
           \<lparr>ap_id = ''AP-102'', ap_label = ''AP-102 '' @ bullet @ '' Suite Wing'', ap_type = ''shared''\<rparr> ]\<rparr>,
      \<lparr>loc_id = ''vp-building-a'', loc_name = ''Visionary Park Building A'',
       loc_subtitle = ''Private pickup'',
       arrivePoints =
         [ \<lparr>ap_id = ''AP-201'', ap_label = ''AP-201 '' @ bullet @ '' Main Entrance'', ap_type = ''private''\<rparr> ]\<rparr>,
      \<lparr>loc_id = ''vp-building-b'', loc_name = ''Visionary Park Building B'',
       loc_subtitle = ''Private pickup'',
       arrivePoints =
         [ \<lparr>ap_id = ''AP-301'', ap_label = ''AP-301 '' @ bullet @ '' Mail Room'', ap_type = ''private''\<rparr> ]\<rparr> ]"

definition MERCHANTS :: "merchant list" where
  "MERCHANTS =
    [ \<lparr>m_id = ''merchant-1'', m_name = ''Sushi & Bowls'', m_category = ''Asian'',
       etaMins = 28, m_open = True,
       chownowUrl = ''https://order.chownow.com/placeholders/merchant-1'',
       m_tags = [''Fresh'', ''Light'', ''Popular'']\<rparr>,
      \<lparr>m_id = ''merchant-2'', m_name = ''Garlic Noodle House'', m_category = ''Noodles'',
       etaMins = 32, m_open = True,
       chownowUrl = ''https://order.chownow.com/placeholders/merchant-2'',
       m_tags = [''Savory'', ''Medium spice'']\<rparr>,
      \<lparr>m_id = ''merchant-3'', m_name = ''Grill & Greens'', m_category = ''Bowls'',
       etaMins = 24, m_open = False,
       chownowUrl = ''https://order.chownow.com/placeholders/merchant-3'',
       m_tags = [''Protein'', ''Clean'']\<rparr> ]"

datatype screen =
  LANDING | AUTH | DESTINATION | MERCHANTS_SCREEN | MERCHANT_DETAIL | TRACKING | UNLOCK

section \<open>The state of \<open>App\<close>\<close>

record user_info =
  phone :: string

record mock_order =
  order_id :: string
  status :: string
  merchantName :: string
  eta :: nat

text \<open>
  The first seven fields are the \<open>useState\<close> cells of \<open>App\<close>, with their names.
  \<open>timers\<close> holds the pending \<open>setTimeout\<close> callbacks of the order-progression effect,
  each as the status it will write and its delay; \<open>opened\<close> logs the URLs given to
  \<open>window.open\<close>; \<open>leaving\<close> is the view that \<open>AnimatePresence\<close> may still be
  animating out.
\<close>

record session =
  screen :: screen
  user :: "user_info option"
  locationId :: string
  arrivePointId :: string
  selectedMerchantId :: "string option"
  order :: "mock_order option"
  showHow :: bool
  timers :: "(string \<times> nat) list"
  opened :: "string list"
  leaving :: "screen option"

definition initial :: session where
  "initial = \<lparr>screen = LANDING, user = None, locationId = [], arrivePointId = [],
     selectedMerchantId = None, order = None, showHow = False, timers = [], opened = [],
     leaving = None\<rparr>"

subsection \<open>Derived values (\<open>useMemo\<close>)\<close>

definition location_of :: "session \<Rightarrow> location option" where
  "location_of s = find (\<lambda>l. loc_id l = locationId s) LOCATIONS"

definition arrivePoint_of :: "session \<Rightarrow> arrivePoint option" where
  "arrivePoint_of s =
     (case location_of s of
        None \<Rightarrow> None
      | Some l \<Rightarrow> find (\<lambda>ap. ap_id ap = arrivePointId s) (arrivePoints l))"

record deliveryContext =
  locationName :: string
  dc_arrivePointId :: string
  arrivePointLabel :: string

definition deliveryContext_of :: "session \<Rightarrow> deliveryContext option" where
  "deliveryContext_of s =
     (case location_of s of
        None \<Rightarrow> None
      | Some l \<Rightarrow>
          (case arrivePoint_of s of
             None \<Rightarrow> None
           | Some ap \<Rightarrow>
               Some \<lparr>locationName = loc_name l, dc_arrivePointId = ap_id ap,
                     arrivePointLabel = ap_label ap\<rparr>))"

definition selectedMerchant :: "session \<Rightarrow> merchant option" where
  "selectedMerchant s =
     (case selectedMerchantId s of
        None \<Rightarrow> None
      | Some i \<Rightarrow> find (\<lambda>m. m_id m = i) MERCHANTS)"

section \<open>Effects\<close>

subsection \<open>The deep link, read once at mount\<close>

text \<open>
  \<open>params.get("location")\<close> is \<open>null\<close> (here \<open>None\<close>) when the parameter is absent;
  \<open>if (loc)\<close> also skips the empty string.
\<close>

definition deep_link :: "string option \<Rightarrow> session \<Rightarrow> session" where
  "deep_link loc s =
     (case loc of
        None \<Rightarrow> s
      | Some l \<Rightarrow> if l \<noteq> [] then s\<lparr>locationId := l\<rparr> else s)"

subsection \<open>Mock order status progression\<close>

text \<open>
  \<open>schedule\<close> is the list \<open>timers\<close> that one run of the effect body fills: nothing when
  there is no order or it is delivered, otherwise what the six \<open>if\<close> statements push.
\<close>

definition schedule :: "mock_order option \<Rightarrow> (string \<times> nat) list" where
  "schedule cur =
     (case cur of
        None \<Rightarrow> []
      | Some ord \<Rightarrow>
          if status ord = ''DELIVERED'' then []
          else
            (if status ord = ''PLACED'' then [(''ACCEPTED'', 1500)] else []) @
            (if status ord = ''ACCEPTED'' then [(''PREPARING'', 1800)] else []) @
            (if status ord = ''PREPARING'' then [(''READY'', 2600)] else []) @
            (if status ord = ''READY'' then [(''PICKED_UP'', 1800)] else []) @
            (if status ord = ''PICKED_UP'' then [(''IN_FLIGHT'', 1800)] else []) @
            (if status ord = ''IN_FLIGHT'' then [(''DELIVERED'', 2800)] else []))"

text \<open>
  The effect depends on \<open>order?.status\<close> only: when that value differs from the one of
  the previous render, the cleanup clears the old timers and the body schedules anew.
\<close>

definition progression_effect :: "session \<Rightarrow> session \<Rightarrow> session" where
  "progression_effect prev s =
     (if map_option status (order prev) = map_option status (order s) then s
      else s\<lparr>timers := schedule (order s)\<rparr>)"

text \<open>
  The callback of a timer: \<open>setOrder((o) => ({ ...o, status: next }))\<close>. It is modelled
  on an order that exists: a timer is pending only while there is one
  (\<open>pending_timer_has_order\<close> below), and the order is never unset.
\<close>

definition advance :: "string \<Rightarrow> mock_order \<Rightarrow> mock_order" where
  "advance next ord = ord\<lparr>status := next\<rparr>"

subsection \<open>Simple guardrails\<close>

text \<open>
  Both conditions read the values of the render the effect belongs to, so the second
  \<open>if\<close> tests the same \<open>screen\<close> as the first.
\<close>

definition guardrails :: "session \<Rightarrow> session" where
  "guardrails s =
     (if screen s = LANDING then s
      else
        let s1 = (if user s = None \<and> screen s \<noteq> AUTH then s\<lparr>screen := AUTH\<rparr> else s)
        in if user s \<noteq> None \<and> (locationId s = [] \<or> arrivePointId s = [])
              \<and> screen s \<noteq> DESTINATION \<and> screen s \<noteq> AUTH
           then s1\<lparr>screen := DESTINATION\<rparr>
           else s1)"

text \<open>
  \<open>effects prev s\<close> is the state after the effects that follow a change from \<open>prev\<close>
  to \<open>s\<close>. React runs the guard only when one of its four dependencies changed and
  again after the guard itself changed the screen; one application is the same, since
  the guard changes nothing when run again (\<open>guardrails_idem\<close>) or on unchanged
  dependencies (\<open>guardrails_same_dependencies\<close>).
\<close>

definition effects :: "session \<Rightarrow> session \<Rightarrow> session" where
  "effects prev s = guardrails (progression_effect prev s)"

definition mount :: "string option \<Rightarrow> session" where
  "mount loc = effects initial (deep_link loc initial)"

section \<open>Callbacks\<close>

definition Landing_onContinue :: "session \<Rightarrow> session" where
  "Landing_onContinue s = s\<lparr>screen := AUTH\<rparr>"

definition isDigit :: "char \<Rightarrow> bool" where
  "isDigit c = (c \<in> set ''0123456789'')"

text \<open>\<open>verify\<close> of \<open>Auth\<close> hands over \<open>{ phone: phone.replace(/\D/g, "") }\<close>.\<close>

definition Auth_onAuthed :: "string \<Rightarrow> session \<Rightarrow> session" where
  "Auth_onAuthed raw s =
     s\<lparr>user := Some \<lparr>phone = filter isDigit raw\<rparr>, screen := DESTINATION\<rparr>"

definition onPickLocation :: "string \<Rightarrow> session \<Rightarrow> session" where
  "onPickLocation i s = s\<lparr>locationId := i, arrivePointId := []\<rparr>"

definition onPickArrivePoint :: "string \<Rightarrow> session \<Rightarrow> session" where
  "onPickArrivePoint i s = s\<lparr>arrivePointId := i\<rparr>"

definition Destination_onContinue :: "session \<Rightarrow> session" where
  "Destination_onContinue s = s\<lparr>screen := MERCHANTS_SCREEN\<rparr>"

definition onSelect :: "string \<Rightarrow> session \<Rightarrow> session" where
  "onSelect i s = s\<lparr>selectedMerchantId := Some i, screen := MERCHANT_DETAIL\<rparr>"

definition onBack :: "session \<Rightarrow> session" where
  "onBack s = s\<lparr>screen := MERCHANTS_SCREEN\<rparr>"

subsection \<open>Checkout\<close>

definition digit_char :: "nat \<Rightarrow> char" where
  "digit_char d = ''0123456789'' ! (d mod 10)"

function string_of_nat :: "nat \<Rightarrow> string" where
  "string_of_nat n =
     (if n < 10 then [digit_char n] else string_of_nat (n div 10) @ [digit_char (n mod 10)])"
  by pat_completeness auto
termination
  by (relation "measure id") auto

declare string_of_nat.simps [simp del]

text \<open>
  Reading a string of decimal digits back as a number; it fixes what \<open>string_of_nat\<close>
  has to produce.
\<close>

definition digit_value :: "char \<Rightarrow> nat" where
  "digit_value c = of_char c - 48"

definition decimal_value :: "string \<Rightarrow> nat" where
  "decimal_value cs = foldl (\<lambda>a c. 10 * a + digit_value c) 0 cs"

text \<open>
  \<open>r\<close> stands for \<open>Math.floor(Math.random() * 90000)\<close>, a whole number from 0 to 89999
  that the model takes as an input of the event.
\<close>

definition onCheckout :: "nat \<Rightarrow> merchant \<Rightarrow> session \<Rightarrow> session" where
  "onCheckout r m s =
     (let newOrder = \<lparr>order_id = ''VP-'' @ string_of_nat (r + 10000), status = ''PLACED'',
                       merchantName = m_name m, eta = etaMins m\<rparr>
      in s\<lparr>opened := opened s @ [chownowUrl m], order := Some newOrder, screen := TRACKING\<rparr>)"

definition onUnlock :: "session \<Rightarrow> session" where
  "onUnlock s = s\<lparr>screen := UNLOCK\<rparr>"

definition onDone :: "session \<Rightarrow> session" where
  "onDone s = s\<lparr>screen := MERCHANTS_SCREEN\<rparr>"

section \<open>The views: which control exists and is enabled\<close>

subsection \<open>\<open>Destination\<close>: \<open>canContinue\<close>\<close>

definition canContinue :: "session \<Rightarrow> bool" where
  "canContinue s = (locationId s \<noteq> [] \<and> arrivePointId s \<noteq> [])"

subsection \<open>\<open>Tracking\<close>: the step list, \<open>idx\<close> and \<open>canUnlock\<close>\<close>

definition steps :: "(string \<times> string) list" where
  "steps =
    [ (''PLACED'', ''Order placed''),
      (''ACCEPTED'', ''Accepted''),
      (''PREPARING'', ''Preparing''),
      (''READY'', ''Ready for pickup''),
      (''PICKED_UP'', ''Picked up''),
      (''IN_FLIGHT'', ''In flight''),
      (''DELIVERED'', ''Delivered'') ]"

text \<open>\<open>Array.prototype.findIndex\<close>: the first position that satisfies \<open>p\<close>, or \<open>-1\<close>.\<close>

fun findIndex :: "('a \<Rightarrow> bool) \<Rightarrow> 'a list \<Rightarrow> int" where
  "findIndex p [] = - 1"
| "findIndex p (x # xs) =
     (if p x then 0 else (let k = findIndex p xs in if k < 0 then - 1 else k + 1))"

definition status_idx :: "string \<Rightarrow> int" where
  "status_idx st = findIndex (\<lambda>e. fst e = st) steps"

definition known_status :: "string \<Rightarrow> bool" where
  "known_status st = (0 \<le> status_idx st)"

definition canUnlock :: "mock_order \<Rightarrow> bool" where
  "canUnlock ord = (status ord = ''DELIVERED'')"

subsection \<open>The search box of \<open>Merchants\<close>\<close>

text \<open>
  \<open>filtered s\<close> is the list of merchant buttons when \<open>q.trim().toLowerCase()\<close> has
  the value \<open>s\<close>: what the two built-ins make of the typed text is taken as it comes
  from the runtime. \<open>toLowerCase\<close> below is applied to the names and categories of
  \<open>MERCHANTS\<close> only, which are ASCII (\<open>merchant_texts_ascii\<close>), where mapping
  \<open>A\<close> to \<open>Z\<close> is all that \<open>String.prototype.toLowerCase\<close> does.
  \<open>str_includes xs p\<close> is \<open>xs.includes(p)\<close>.
\<close>

definition toLowerCase :: "string \<Rightarrow> string" where
  "toLowerCase s =
     map (\<lambda>c. case map_of (zip ''ABCDEFGHIJKLMNOPQRSTUVWXYZ'' ''abcdefghijklmnopqrstuvwxyz'') c of
                 None \<Rightarrow> c
               | Some d \<Rightarrow> d) s"

fun starts_with :: "string \<Rightarrow> string \<Rightarrow> bool" where
  "starts_with xs [] = True"
| "starts_with [] (y # ys) = False"
| "starts_with (x # xs) (y # ys) = (x = y \<and> starts_with xs ys)"

fun str_includes :: "string \<Rightarrow> string \<Rightarrow> bool" where
  "str_includes [] p = (p = [])"
| "str_includes (x # xs) p = (starts_with (x # xs) p \<or> str_includes xs p)"

definition filtered :: "string \<Rightarrow> merchant list" where
  "filtered s =
     (if s = [] then MERCHANTS
      else filter (\<lambda>m. str_includes (toLowerCase (m_name m)) s
                     \<or> str_includes (toLowerCase (m_category m)) s) MERCHANTS)"

subsection \<open>Views that are animating out\<close>

text \<open>
  \<open>AnimatePresence mode="wait"\<close> keeps the view of the screen that was left mounted,
  and clickable, until its exit animation ends, and mounts the view of the new screen
  only then. The model does not know when an animation ends, so a control counts as
  present when its view is the one of the current screen or the one recorded in
  \<open>leaving\<close>. \<open>view_of\<close> is the view an event belongs to. When the screen changes,
  \<open>new_leaving\<close> records the view that starts to leave: after an event of the current
  view, or when nothing was leaving, that is the view of the old screen; an event of the
  leaving view lets it go on leaving, unless the screen it asked for is its own, in which
  case it is presented again. A leaving view keeps the props of its last render; the
  tests on data below read the current state instead, which admits every click the
  leaving view admits (its location, arrive points and selected merchant cannot change
  before it is gone or presented again, and its order can only have advanced).
\<close>

definition shown :: "session \<Rightarrow> screen \<Rightarrow> bool" where
  "shown s v = (screen s = v \<or> leaving s = Some v)"

subsection \<open>Events\<close>

text \<open>
  One constructor for each control that calls back into \<open>App\<close>, and one for a pending
  timer that fires. \<open>Merchants_Select q i\<close> is a click on the button of merchant \<open>i\<close>
  while the text of the search box, trimmed and lower-cased, is \<open>q\<close>;
  \<open>Detail_Checkout r\<close> carries the random draw.
  \<open>Auth_Verified raw\<close> is the moment \<open>verify\<close> calls \<open>onAuthed\<close>, started while the
  phone field held \<open>raw\<close>; the steps, the code field and the delays inside \<open>Auth\<close>, and
  the tabs and the delay inside \<open>Unlock\<close>, are local to those views and never reach
  \<open>App\<close>.
\<close>

datatype intent =
    Landing_Continue
  | Auth_Verified string
  | Dest_PickLocation string
  | Dest_PickArrivePoint string
  | Dest_Continue
  | Merchants_Select string string
  | Detail_Back
  | Detail_Checkout nat
  | Tracking_Back
  | Tracking_Unlock
  | Unlock_Done
  | Timer_Fires
  | How_Open
  | How_Close

fun view_of :: "intent \<Rightarrow> screen option" where
  "view_of Landing_Continue = Some LANDING"
| "view_of (Auth_Verified raw) = Some AUTH"
| "view_of (Dest_PickLocation i) = Some DESTINATION"
| "view_of (Dest_PickArrivePoint i) = Some DESTINATION"
| "view_of Dest_Continue = Some DESTINATION"
| "view_of (Merchants_Select q i) = Some MERCHANTS_SCREEN"
| "view_of Detail_Back = Some MERCHANT_DETAIL"
| "view_of (Detail_Checkout r) = Some MERCHANT_DETAIL"
| "view_of Tracking_Back = Some TRACKING"
| "view_of Tracking_Unlock = Some TRACKING"
| "view_of Unlock_Done = Some UNLOCK"
| "view_of Timer_Fires = None"
| "view_of How_Open = None"
| "view_of How_Close = None"

text \<open>
  \<open>dispatch\<close> follows the JSX: a view is rendered for one screen
  (\<open>MerchantDetail\<close> also needs \<open>selectedMerchant\<close>, \<open>Tracking\<close> and \<open>Unlock\<close> need
  \<open>order\<close>) and stays while it is leaving, a button exists for each element of the
  list it is mapped from, and a click on a \<open>disabled\<close> button, or on one that is not
  rendered, changes nothing. \<open>verify\<close> is not cancelled when \<open>Auth\<close> goes away, so
  \<open>onAuthed\<close> can arrive on any screen that comes after LANDING.
\<close>

fun dispatch :: "intent \<Rightarrow> session \<Rightarrow> session" where
  "dispatch Landing_Continue s =
     (if shown s LANDING then Landing_onContinue s else s)"
| "dispatch (Auth_Verified raw) s =
     (if screen s \<noteq> LANDING then Auth_onAuthed raw s else s)"
| "dispatch (Dest_PickLocation i) s =
     (if shown s DESTINATION \<and> i \<in> set (map loc_id LOCATIONS)
      then onPickLocation i s else s)"
| "dispatch (Dest_PickArrivePoint i) s =
     (if shown s DESTINATION then
        (case location_of s of
           None \<Rightarrow> s
         | Some l \<Rightarrow> if i \<in> set (map ap_id (arrivePoints l)) then onPickArrivePoint i s else s)
      else s)"
| "dispatch Dest_Continue s =
     (if shown s DESTINATION \<and> canContinue s then Destination_onContinue s else s)"
| "dispatch (Merchants_Select q i) s =
     (if shown s MERCHANTS_SCREEN then
        (case find (\<lambda>m. m_id m = i) (filtered q) of
           None \<Rightarrow> s
         | Some m \<Rightarrow> if m_open m then onSelect (m_id m) s else s)
      else s)"
| "dispatch Detail_Back s =
     (if shown s MERCHANT_DETAIL \<and> selectedMerchant s \<noteq> None then onBack s else s)"
| "dispatch (Detail_Checkout r) s =
     (if shown s MERCHANT_DETAIL then
        (case selectedMerchant s of None \<Rightarrow> s | Some m \<Rightarrow> onCheckout r m s)
      else s)"
| "dispatch Tracking_Back s =
     (if shown s TRACKING \<and> order s \<noteq> None then onBack s else s)"
| "dispatch Tracking_Unlock s =
     (if shown s TRACKING then
        (case order s of
           None \<Rightarrow> s
         | Some ord \<Rightarrow> if canUnlock ord then onUnlock s else s)
      else s)"
| "dispatch Unlock_Done s =
     (if shown s UNLOCK \<and> order s \<noteq> None then onDone s else s)"
| "dispatch Timer_Fires s =
     (case timers s of
        [] \<Rightarrow> s
      | (next, ms) # rest \<Rightarrow> s\<lparr>order := map_option (advance next) (order s), timers := rest\<rparr>)"
| "dispatch How_Open s = s\<lparr>showHow := True\<rparr>"
| "dispatch How_Close s = (if showHow s then s\<lparr>showHow := False\<rparr> else s)"

definition new_leaving :: "session \<Rightarrow> intent \<Rightarrow> screen \<Rightarrow> screen option" where
  "new_leaving prev i scr =
     (if scr = screen prev then leaving prev
      else if view_of i = Some (screen prev) \<or> leaving prev = None then Some (screen prev)
      else if leaving prev = Some scr then None
      else leaving prev)"

definition step :: "session \<Rightarrow> intent \<Rightarrow> session" where
  "step s i =
     (effects s (dispatch i s))
       \<lparr>leaving := new_leaving s i (screen (effects s (dispatch i s)))\<rparr>"

definition run :: "string option \<Rightarrow> intent list \<Rightarrow> session" where
  "run loc is = foldl step (mount loc) is"

subsection \<open>Callbacks in any order\<close>

text \<open>
  The guard is there for the case that the views let something through. \<open>call\<close>
  applies a callback of \<open>App\<close> whatever the screen and whether or not its button is
  enabled, and \<open>calls_run\<close> is a session made of such calls, each followed by the
  effects. \<open>onCheckout\<close> reads \<open>selectedMerchant.chownowUrl\<close> first, which throws
  before any state is set when no merchant is selected; the timer is the pending one, as
  in \<open>dispatch\<close>. Every \<open>run\<close> is a \<open>calls_run\<close>, up to the field \<open>leaving\<close>, which
  no callback and no effect reads (\<open>run_is_calls_run\<close>).
\<close>

datatype callback =
    Call_Landing_onContinue
  | Call_onAuthed string
  | Call_onPickLocation string
  | Call_onPickArrivePoint string
  | Call_Destination_onContinue
  | Call_onSelect string
  | Call_onBack
  | Call_onCheckout nat
  | Call_onUnlock
  | Call_onDone
  | Call_timer
  | Call_setShowHow bool

fun call :: "callback \<Rightarrow> session \<Rightarrow> session" where
  "call Call_Landing_onContinue s = Landing_onContinue s"
| "call (Call_onAuthed raw) s = Auth_onAuthed raw s"
| "call (Call_onPickLocation i) s = onPickLocation i s"
| "call (Call_onPickArrivePoint i) s = onPickArrivePoint i s"
| "call Call_Destination_onContinue s = Destination_onContinue s"
| "call (Call_onSelect i) s = onSelect i s"
| "call Call_onBack s = onBack s"
| "call (Call_onCheckout r) s =
     (case selectedMerchant s of None \<Rightarrow> s | Some m \<Rightarrow> onCheckout r m s)"
| "call Call_onUnlock s = onUnlock s"
| "call Call_onDone s = onDone s"
| "call Call_timer s = dispatch Timer_Fires s"
| "call (Call_setShowHow b) s = s\<lparr>showHow := b\<rparr>"

definition call_step :: "session \<Rightarrow> callback \<Rightarrow> session" where
  "call_step s c = effects s (call c s)"

definition calls_run :: "string option \<Rightarrow> callback list \<Rightarrow> session" where
  "calls_run loc cs = foldl call_step (mount loc) cs"

section \<open>Invariants of a session\<close>

text \<open>
  Four facts that hold at mount and after every event; the claims about reachable
  states rest on them. The last definition is the part of \<open>gated\<close> that also holds
  when the callbacks come in any order.
\<close>

definition gated :: "session \<Rightarrow> bool" where
  "gated s = (guardrails s = s \<and> (user s \<noteq> None \<longrightarrow> screen s \<noteq> LANDING))"

definition destination_ok :: "session \<Rightarrow> bool" where
  "destination_ok s = (arrivePointId s \<noteq> [] \<longrightarrow> arrivePoint_of s \<noteq> None)"

definition merchant_ok :: "session \<Rightarrow> bool" where
  "merchant_ok s =
     (case selectedMerchant s of
        None \<Rightarrow> selectedMerchantId s = None \<and> screen s \<noteq> MERCHANT_DETAIL
      | Some m \<Rightarrow> m_open m)"

definition order_ok :: "session \<Rightarrow> bool" where
  "order_ok s =
     (timers s = schedule (order s) \<and>
      (case order s of
         None \<Rightarrow> screen s \<noteq> TRACKING \<and> screen s \<noteq> UNLOCK
       | Some ord \<Rightarrow>
           known_status (status ord) \<and>
           (screen s = UNLOCK \<longrightarrow> status ord = ''DELIVERED'')))"

definition session_inv :: "session \<Rightarrow> bool" where
  "session_inv s = (gated s \<and> destination_ok s \<and> merchant_ok s \<and> order_ok s)"

definition signed_in_off_landing :: "session \<Rightarrow> bool" where
  "signed_in_off_landing s = (user s \<noteq> None \<longrightarrow> screen s \<noteq> LANDING)"

section \<open>Helper lemmas\<close>

lemmas handler_defs = Landing_onContinue_def Auth_onAuthed_def onPickLocation_def
  onPickArrivePoint_def Destination_onContinue_def onSelect_def onBack_def onCheckout_def
  onUnlock_def onDone_def

lemmas eval_defs = run_def step_def effects_def progression_effect_def guardrails_def
  mount_def deep_link_def initial_def handler_defs location_of_def arrivePoint_of_def
  LOCATIONS_def MERCHANTS_def filtered_def toLowerCase_def isDigit_def shown_def
  new_leaving_def
  selectedMerchant_def schedule_def advance_def canContinue_def canUnlock_def

subsection \<open>Runs\<close>

lemma shown_current [simp]: "screen s = v \<Longrightarrow> shown s v"
  by (simp add: shown_def)

lemma run_Nil: "run loc [] = mount loc"
  by (simp add: run_def)

lemma run_snoc: "run loc (is @ [i]) = step (run loc is) i"
  by (simp add: run_def)

subsection \<open>The guard\<close>

lemma guardrails_screen_cases:
  "screen (guardrails s) = screen s \<or> screen (guardrails s) = AUTH \<or> screen (guardrails s) = DESTINATION"
  by (simp add: guardrails_def Let_def)

lemma guardrails_only_screen: "guardrails s = s\<lparr>screen := screen (guardrails s)\<rparr>"
  by (simp add: guardrails_def Let_def)

lemma guardrails_fields [simp]:
  "user (guardrails s) = user s"
  "locationId (guardrails s) = locationId s"
  "arrivePointId (guardrails s) = arrivePointId s"
  "selectedMerchantId (guardrails s) = selectedMerchantId s"
  "order (guardrails s) = order s"
  "showHow (guardrails s) = showHow s"
  "timers (guardrails s) = timers s"
  "opened (guardrails s) = opened s"
  by (simp_all add: guardrails_def Let_def)

lemma guardrails_leaving [simp]: "guardrails (s\<lparr>leaving := l\<rparr>) = (guardrails s)\<lparr>leaving := l\<rparr>"
  by (simp add: guardrails_def Let_def)

lemma guardrails_idem: "guardrails (guardrails s) = guardrails s"
  by (simp add: guardrails_def Let_def)

lemma guardrails_no_user:
  "user s = None \<Longrightarrow> screen (guardrails s) = LANDING \<or> screen (guardrails s) = AUTH"
  by (simp add: guardrails_def Let_def)

lemma guardrails_forces_auth:
  "user s = None \<Longrightarrow> screen s \<noteq> LANDING \<Longrightarrow> screen (guardrails s) = AUTH"
  by (simp add: guardrails_def Let_def)

lemma guardrails_incomplete:
  "user s \<noteq> None \<Longrightarrow> \<not> canContinue s \<Longrightarrow>
   screen (guardrails s) \<in> {LANDING, AUTH, DESTINATION}"
  by (auto simp add: guardrails_def Let_def canContinue_def)

lemma guardrails_forces_destination:
  "user s \<noteq> None \<Longrightarrow> \<not> canContinue s \<Longrightarrow> screen s \<notin> {LANDING, AUTH, DESTINATION} \<Longrightarrow>
   screen (guardrails s) = DESTINATION"
  by (auto simp add: guardrails_def Let_def canContinue_def)

lemma guardrails_landing: "screen (guardrails s) = LANDING \<longleftrightarrow> screen s = LANDING"
  by (simp add: guardrails_def Let_def)

lemma guardrails_fixed_iff:
  "guardrails s = s \<longleftrightarrow>
     (screen s = LANDING \<or>
      (user s = None \<and> screen s = AUTH) \<or>
      (user s \<noteq> None \<and> (canContinue s \<or> screen s = DESTINATION \<or> screen s = AUTH)))"
proof -
  have "guardrails s = s \<longleftrightarrow> screen (guardrails s) = screen s"
    by (metis guardrails_only_screen session.surjective session.update_convs(1))
  also have "\<dots> \<longleftrightarrow> (screen s = LANDING \<or>
      (user s = None \<and> screen s = AUTH) \<or>
      (user s \<noteq> None \<and> (canContinue s \<or> screen s = DESTINATION \<or> screen s = AUTH)))"
    by (auto simp add: guardrails_def Let_def canContinue_def)
  finally show ?thesis .
qed

lemma progression_fields [simp]:
  "screen (progression_effect p s) = screen s"
  "user (progression_effect p s) = user s"
  "locationId (progression_effect p s) = locationId s"
  "arrivePointId (progression_effect p s) = arrivePointId s"
  "selectedMerchantId (progression_effect p s) = selectedMerchantId s"
  "order (progression_effect p s) = order s"
  "showHow (progression_effect p s) = showHow s"
  "opened (progression_effect p s) = opened s"
  by (simp_all add: progression_effect_def)

subsection \<open>Static data\<close>

lemma find_by_key:
  "distinct (map f xs) \<Longrightarrow> x \<in> set xs \<Longrightarrow> find (\<lambda>y. f y = f x) xs = Some x"
  by (induction xs) auto

lemma find_key_mem:
  "find (\<lambda>y. f y = k) xs = Some x \<Longrightarrow> x \<in> set xs \<and> f x = k"
  by (induction xs) (auto split: if_splits)

lemma find_key_None: "find (\<lambda>y. f y = k) xs = None \<longleftrightarrow> k \<notin> set (map f xs)"
  by (induction xs) auto

lemma merchant_table:
  "map (\<lambda>m. (m_id m, m_open m)) MERCHANTS =
     [(''merchant-1'', True), (''merchant-2'', True), (''merchant-3'', False)]"
  by (simp add: MERCHANTS_def)

lemma merchant_ids_distinct: "distinct (map m_id MERCHANTS)"
  by (simp add: MERCHANTS_def)

lemma open_merchant_resolves:
  "m \<in> set MERCHANTS \<Longrightarrow> find (\<lambda>x. m_id x = m_id m) MERCHANTS = Some m"
  by (rule find_by_key [OF merchant_ids_distinct])

lemma closed_merchant_3:
  assumes "m \<in> set MERCHANTS" and "m_id m = ''merchant-3''"
  shows "\<not> m_open m"
proof -
  from assms(1) have "(m_id m, m_open m) \<in> set (map (\<lambda>m. (m_id m, m_open m)) MERCHANTS)"
    by (simp add: image_iff) blast
  then show ?thesis using assms(2) by (simp add: merchant_table)
qed

lemma filtered_subset: "set (filtered q) \<subseteq> set MERCHANTS"
  by (simp add: filtered_def Let_def del: set_filter)

lemma find_filtered:
  assumes "find (\<lambda>m. m_id m = i) (filtered q) = Some m"
  shows "m \<in> set MERCHANTS" and "m_id m = i"
  using find_key_mem [OF assms] filtered_subset by blast+

subsection \<open>The progression schedule\<close>

lemma schedule_status:
  "map_option status a = map_option status b \<Longrightarrow> schedule a = schedule b"
  by (cases a; cases b) (simp_all add: schedule_def)

lemma schedule_eq:
  "schedule (Some ord) =
     (if status ord = ''PLACED'' then [(''ACCEPTED'', 1500)]
      else if status ord = ''ACCEPTED'' then [(''PREPARING'', 1800)]
      else if status ord = ''PREPARING'' then [(''READY'', 2600)]
      else if status ord = ''READY'' then [(''PICKED_UP'', 1800)]
      else if status ord = ''PICKED_UP'' then [(''IN_FLIGHT'', 1800)]
      else if status ord = ''IN_FLIGHT'' then [(''DELIVERED'', 2800)]
      else [])"
  by (simp add: schedule_def)

lemma status_idx_keys:
  "status_idx ''PLACED'' = 0" "status_idx ''ACCEPTED'' = 1" "status_idx ''PREPARING'' = 2"
  "status_idx ''READY'' = 3" "status_idx ''PICKED_UP'' = 4" "status_idx ''IN_FLIGHT'' = 5"
  "status_idx ''DELIVERED'' = 6"
  by (simp_all add: status_idx_def steps_def)

lemma known_status_iff:
  "known_status st \<longleftrightarrow>
     st = ''PLACED'' \<or> st = ''ACCEPTED'' \<or> st = ''PREPARING'' \<or> st = ''READY'' \<or>
     st = ''PICKED_UP'' \<or> st = ''IN_FLIGHT'' \<or> st = ''DELIVERED''"
  by (simp add: known_status_def status_idx_def steps_def)

lemma schedule_Cons:
  assumes "schedule (Some ord) = (nxt, ms) # rest"
  shows "rest = [] \<and> nxt \<noteq> status ord \<and> status ord \<noteq> ''DELIVERED'' \<and>
         known_status (status ord) \<and> known_status nxt \<and>
         status_idx nxt = status_idx (status ord) + 1"
  using assms
  by (auto simp add: schedule_eq known_status_iff status_idx_keys split: if_splits)

lemma schedule_in_sequence:
  assumes "known_status (status ord)" and "status ord \<noteq> ''DELIVERED''"
  shows "\<exists>nxt ms. schedule (Some ord) = [(nxt, ms)]"
  using assms by (auto simp add: schedule_eq known_status_iff)

lemma schedule_delivered: "status ord = ''DELIVERED'' \<Longrightarrow> schedule (Some ord) = []"
  by (simp add: schedule_def)

subsection \<open>Preservation of the invariants\<close>

lemma location_of_cong:
  "locationId t = locationId s \<Longrightarrow> location_of t = location_of s"
  by (simp add: location_of_def)

lemma arrivePoint_of_cong:
  "locationId t = locationId s \<Longrightarrow> arrivePointId t = arrivePointId s \<Longrightarrow>
   arrivePoint_of t = arrivePoint_of s"
  by (simp add: arrivePoint_of_def location_of_def split: option.splits)

lemma selectedMerchant_cong:
  "selectedMerchantId t = selectedMerchantId s \<Longrightarrow> selectedMerchant t = selectedMerchant s"
  by (simp add: selectedMerchant_def)

lemma dispatch_landing:
  assumes "user s \<noteq> None \<longrightarrow> screen s \<noteq> LANDING"
  shows "user (dispatch i s) \<noteq> None \<longrightarrow> screen (dispatch i s) \<noteq> LANDING"
  using assms
  by (cases i) (auto simp add: handler_defs split: option.splits list.splits)

lemma gated_step: "gated s \<Longrightarrow> gated (step s i)"
  using dispatch_landing [of s i]
  by (simp add: gated_def step_def effects_def guardrails_idem guardrails_landing)

lemma dispatch_destination:
  "dispatch i s = s \<or>
   (locationId (dispatch i s) = locationId s \<and> arrivePointId (dispatch i s) = arrivePointId s) \<or>
   arrivePointId (dispatch i s) = [] \<or>
   (locationId (dispatch i s) = locationId s \<and>
    (\<exists>l. location_of s = Some l \<and> arrivePointId (dispatch i s) \<in> set (map ap_id (arrivePoints l))))"
  by (cases i) (auto simp add: handler_defs split: option.splits list.splits)

lemma destination_ok_step:
  assumes "destination_ok s"
  shows "destination_ok (step s i)"
proof -
  let ?d = "dispatch i s"
  have "destination_ok ?d"
    using dispatch_destination [of i s]
  proof (elim disjE conjE exE)
    assume "?d = s" with assms show ?thesis by simp
  next
    assume "locationId ?d = locationId s" "arrivePointId ?d = arrivePointId s"
    with assms arrivePoint_of_cong [of ?d s] show ?thesis by (simp add: destination_ok_def)
  next
    assume "arrivePointId ?d = []" then show ?thesis by (simp add: destination_ok_def)
  next
    fix l assume l: "locationId ?d = locationId s" "location_of s = Some l"
      "arrivePointId ?d \<in> set (map ap_id (arrivePoints l))"
    from l(1,2) have "location_of ?d = Some l" by (simp add: location_of_def)
    with l(3) show ?thesis
      by (simp add: destination_ok_def arrivePoint_of_def find_key_None del: set_map)
  qed
  moreover have "arrivePoint_of (step s i) = arrivePoint_of ?d"
    by (rule arrivePoint_of_cong) (simp_all add: step_def effects_def)
  moreover have "arrivePointId (step s i) = arrivePointId ?d"
    by (simp add: step_def effects_def)
  ultimately show ?thesis by (simp add: destination_ok_def)
qed

lemma step_fields:
  "user (step s i) = user (dispatch i s)"
  "locationId (step s i) = locationId (dispatch i s)"
  "arrivePointId (step s i) = arrivePointId (dispatch i s)"
  "selectedMerchantId (step s i) = selectedMerchantId (dispatch i s)"
  "order (step s i) = order (dispatch i s)"
  "showHow (step s i) = showHow (dispatch i s)"
  "opened (step s i) = opened (dispatch i s)"
  by (simp_all add: step_def effects_def)

lemma step_screen_cases:
  "screen (step s i) = screen (dispatch i s) \<or> screen (step s i) = AUTH \<or>
   screen (step s i) = DESTINATION"
  using guardrails_screen_cases [of "progression_effect s (dispatch i s)"]
  by (simp add: step_def effects_def)

lemma dispatch_merchant:
  "(selectedMerchantId (dispatch i s) = selectedMerchantId s \<and>
     (screen (dispatch i s) = MERCHANT_DETAIL \<longrightarrow> screen s = MERCHANT_DETAIL)) \<or>
   (\<exists>m \<in> set MERCHANTS. m_open m \<and> selectedMerchantId (dispatch i s) = Some (m_id m))"
proof (cases i)
  case (Merchants_Select q k)
  show ?thesis
  proof (cases "find (\<lambda>m. m_id m = k) (filtered q)")
    case None
    with Merchants_Select show ?thesis by simp
  next
    case (Some m)
    from find_filtered [OF Some] have "m \<in> set MERCHANTS" by simp
    with Merchants_Select Some show ?thesis by (auto simp add: onSelect_def)
  qed
qed (auto simp add: handler_defs split: option.splits list.splits)

lemma merchant_ok_step:
  assumes "merchant_ok s"
  shows "merchant_ok (step s i)"
proof -
  let ?d = "dispatch i s"
  have d: "merchant_ok ?d"
    using dispatch_merchant [of i s]
  proof (elim disjE conjE bexE)
    assume "selectedMerchantId ?d = selectedMerchantId s"
      and "screen ?d = MERCHANT_DETAIL \<longrightarrow> screen s = MERCHANT_DETAIL"
    with assms selectedMerchant_cong [of ?d s] show ?thesis
      by (auto simp add: merchant_ok_def split: option.splits)
  next
    fix m assume "m \<in> set MERCHANTS" "m_open m" "selectedMerchantId ?d = Some (m_id m)"
    then show ?thesis
      by (simp add: merchant_ok_def selectedMerchant_def open_merchant_resolves)
  qed
  have "selectedMerchant (step s i) = selectedMerchant ?d"
    by (rule selectedMerchant_cong) (simp add: step_fields)
  with d step_screen_cases [of s i] show ?thesis
    by (auto simp add: merchant_ok_def step_fields split: option.splits)
qed

lemma dispatch_order:
  "(order (dispatch i s) = order s \<and> timers (dispatch i s) = timers s \<and>
      (screen (dispatch i s) = TRACKING \<longrightarrow> screen s = TRACKING) \<and>
      (screen (dispatch i s) = UNLOCK \<longrightarrow>
         screen s = UNLOCK \<or> (\<exists>ord. order s = Some ord \<and> status ord = ''DELIVERED''))) \<or>
   (\<exists>ord. order (dispatch i s) = Some ord \<and> status ord = ''PLACED'' \<and>
      timers (dispatch i s) = timers s \<and> screen (dispatch i s) = TRACKING) \<or>
   (\<exists>nxt ms rest. timers s = (nxt, ms) # rest \<and> timers (dispatch i s) = rest \<and>
      order (dispatch i s) = map_option (advance nxt) (order s) \<and>
      screen (dispatch i s) = screen s)"
  by (cases i) (auto simp add: handler_defs canUnlock_def split: option.splits list.splits)

lemma step_timers:
  "timers (step s i) =
     (if map_option status (order s) = map_option status (order (dispatch i s))
      then timers (dispatch i s) else schedule (order (dispatch i s)))"
  by (simp add: step_def effects_def progression_effect_def)

lemma order_ok_step:
  assumes "order_ok s"
  shows "order_ok (step s i)"
proof -
  let ?d = "dispatch i s"
  from assms have t: "timers s = schedule (order s)" by (simp add: order_ok_def)
  from dispatch_order [of i s] show ?thesis
  proof (elim disjE conjE exE)
    assume a: "order ?d = order s" "timers ?d = timers s"
      "screen ?d = TRACKING \<longrightarrow> screen s = TRACKING"
      "screen ?d = UNLOCK \<longrightarrow>
         screen s = UNLOCK \<or> (\<exists>ord. order s = Some ord \<and> status ord = ''DELIVERED'')"
    from a(1,2) t have "timers (step s i) = schedule (order (step s i))"
      by (simp add: step_timers step_fields)
    moreover from assms a step_screen_cases [of s i]
    have "case order s of
            None \<Rightarrow> screen (step s i) \<noteq> TRACKING \<and> screen (step s i) \<noteq> UNLOCK
          | Some ord \<Rightarrow> known_status (status ord) \<and>
              (screen (step s i) = UNLOCK \<longrightarrow> status ord = ''DELIVERED'')"
      by (auto simp add: order_ok_def split: option.splits)
    ultimately show ?thesis using a(1) by (simp add: order_ok_def step_fields)
  next
    fix ord assume b: "order ?d = Some ord" "status ord = ''PLACED''"
      "timers ?d = timers s" "screen ?d = TRACKING"
    have "timers (step s i) = schedule (order (step s i))"
    proof (cases "map_option status (order s) = map_option status (order ?d)")
      case True
      then have "schedule (order s) = schedule (order ?d)" by (rule schedule_status)
      with True b(3) t show ?thesis by (simp add: step_timers step_fields)
    next
      case False
      then show ?thesis by (simp add: step_timers step_fields)
    qed
    moreover from b step_screen_cases [of s i] have "screen (step s i) \<noteq> UNLOCK" by auto
    ultimately show ?thesis using b(1,2)
      by (simp add: order_ok_def step_fields known_status_iff)
  next
    fix nxt ms rest assume c: "timers s = (nxt, ms) # rest" "timers ?d = rest"
      "order ?d = map_option (advance nxt) (order s)" "screen ?d = screen s"
    from c(1) t obtain ord where ord: "order s = Some ord"
      by (cases "order s") (simp_all add: schedule_def)
    with c(1) t have sc: "schedule (Some ord) = (nxt, ms) # rest" by simp
    note facts = schedule_Cons [OF sc]
    from ord c(3) have d: "order ?d = Some (ord\<lparr>status := nxt\<rparr>)" by (simp add: advance_def)
    from facts have "status ord \<noteq> nxt" by auto
    with ord d have "timers (step s i) = schedule (order (step s i))"
      by (simp add: step_timers step_fields)
    moreover from assms ord facts have "screen s \<noteq> UNLOCK" by (auto simp add: order_ok_def)
    with c(4) step_screen_cases [of s i] have "screen (step s i) \<noteq> UNLOCK" by auto
    ultimately show ?thesis using d facts by (simp add: order_ok_def step_fields)
  qed
qed

lemma session_inv_mount: "session_inv (mount loc)"
  by (cases loc)
     (simp_all add: session_inv_def gated_def destination_ok_def merchant_ok_def order_ok_def
        mount_def effects_def progression_effect_def deep_link_def initial_def guardrails_def
        selectedMerchant_def schedule_def)

lemma session_inv_step: "session_inv s \<Longrightarrow> session_inv (step s i)"
  by (simp add: session_inv_def gated_step destination_ok_step merchant_ok_step order_ok_step)

lemma session_inv_run: "session_inv (run loc is)"
  by (induction "is" rule: rev_induct) (simp_all add: run_Nil run_snoc session_inv_mount session_inv_step)

lemmas run_defs = eval_defs string_of_nat.simps digit_char_def

lemma session_inv_gated: "guardrails (run loc is) = run loc is"
  using session_inv_run [of loc "is"] by (simp add: session_inv_def gated_def)

lemma effects_settled: "guardrails s = s \<Longrightarrow> effects s s = s"
  by (simp add: effects_def progression_effect_def)

subsection \<open>Facts about sessions used by the claims\<close>

lemma run_order_ok: "order_ok (run loc is)"
  using session_inv_run [of loc "is"] by (simp add: session_inv_def)

lemma step_settled_noop:
  assumes "guardrails s = s" and "dispatch i s = s"
  shows "step s i = s"
  using assms by (simp add: step_def effects_settled new_leaving_def)

lemma dispatch_order_unchanged:
  assumes "i \<noteq> Timer_Fires" and "\<forall>r. i \<noteq> Detail_Checkout r"
  shows "order (dispatch i s) = order s"
  using assms
  by (cases i) (auto simp add: handler_defs split: option.splits list.splits)

lemma run_gated_screen:
  assumes "screen (run loc is) \<noteq> LANDING" and "screen (run loc is) \<noteq> AUTH"
    and "screen (run loc is) \<noteq> DESTINATION"
  shows "user (run loc is) \<noteq> None \<and> canContinue (run loc is)"
  using session_inv_gated [of loc "is"] assms
  by (auto simp add: guardrails_fixed_iff)

lemma guardrails_keeps:
  assumes "user s \<noteq> None" and "canContinue s"
  shows "guardrails s = s"
  using assms by (simp add: guardrails_fixed_iff)

lemma run_merchant_ok: "merchant_ok (run loc is)"
  using session_inv_run [of loc "is"] by (simp add: session_inv_def)

lemma run_destination_ok: "destination_ok (run loc is)"
  using session_inv_run [of loc "is"] by (simp add: session_inv_def)

lemma select_closed_noop:
  assumes "\<not> (\<exists>m \<in> set MERCHANTS. m_id m = i \<and> m_open m)"
  shows "dispatch (Merchants_Select q i) s = s"
proof (cases "find (\<lambda>m. m_id m = i) (filtered q)")
  case None
  then show ?thesis by simp
next
  case (Some m)
  from find_filtered [OF Some] assms have "\<not> m_open m" by blast
  with Some show ?thesis by simp
qed

lemma merchant_3_closed: "\<not> (\<exists>m \<in> set MERCHANTS. m_id m = ''merchant-3'' \<and> m_open m)"
  using closed_merchant_3 by blast

subsection \<open>The order identifier\<close>

lemma string_of_nat_small: "n < 10 \<Longrightarrow> string_of_nat n = [digit_char n]"
  by (subst string_of_nat.simps) simp

lemma string_of_nat_big:
  "10 \<le> n \<Longrightarrow> string_of_nat n = string_of_nat (n div 10) @ [digit_char (n mod 10)]"
  by (subst string_of_nat.simps) simp

lemma isDigit_digit_char: "isDigit (digit_char d)"
proof -
  have "d mod 10 < length ''0123456789''" by simp
  then have "''0123456789'' ! (d mod 10) \<in> set ''0123456789''" by (rule nth_mem)
  then show ?thesis by (simp only: isDigit_def digit_char_def)
qed

lemma string_of_nat_digits: "\<forall>c \<in> set (string_of_nat n). isDigit c"
proof (induction n rule: string_of_nat.induct)
  case (1 n)
  show ?case
  proof (cases "n < 10")
    case True
    then show ?thesis by (simp add: string_of_nat_small isDigit_digit_char)
  next
    case False
    with "1" show ?thesis by (simp add: string_of_nat_big isDigit_digit_char)
  qed
qed

lemma length_string_of_nat_5:
  assumes "10000 \<le> n" and "n < 100000"
  shows "length (string_of_nat n) = 5"
proof -
  let ?a = "n div 10" let ?b = "n div 10 div 10" let ?c = "n div 10 div 10 div 10"
  let ?d = "n div 10 div 10 div 10 div 10"
  from assms have "10 \<le> n" "10 \<le> ?a" "10 \<le> ?b" "10 \<le> ?c" "?d < 10" by auto
  then show ?thesis by (simp add: string_of_nat_big string_of_nat_small)
qed

subsection \<open>The order is kept\<close>

lemma run_append: "run loc (is @ js) = foldl step (run loc is) js"
  by (simp add: run_def)

lemma dispatch_order_kept: "order s \<noteq> None \<Longrightarrow> order (dispatch i s) \<noteq> None"
  by (cases i) (auto simp add: handler_defs split: option.splits list.splits)

lemma step_order_kept: "order s \<noteq> None \<Longrightarrow> order (step s i) \<noteq> None"
  by (simp only: step_fields dispatch_order_kept not_False_eq_True)

lemma foldl_step_order_kept: "order s \<noteq> None \<Longrightarrow> order (foldl step s js) \<noteq> None"
proof (induction js arbitrary: s)
  case Nil
  then show ?case by simp
next
  case (Cons j js)
  from Cons.prems have "order (step s j) \<noteq> None" by (rule step_order_kept)
  then have "order (foldl step (step s j) js) \<noteq> None" by (rule Cons.IH)
  then show ?case by simp
qed

lemma dispatch_order_identity:
  assumes "\<forall>r. i \<noteq> Detail_Checkout r"
  shows "map_option (\<lambda>ord. (order_id ord, merchantName ord, eta ord)) (order (dispatch i s)) =
         map_option (\<lambda>ord. (order_id ord, merchantName ord, eta ord)) (order s)"
  using assms
  by (cases i)
     (auto simp add: handler_defs advance_def option.map_comp comp_def
           split: option.splits list.splits)

subsection \<open>Callbacks in any order\<close>

lemma dispatch_is_call: "\<exists>c. dispatch i s = call c s"
proof -
  have noop: "call (Call_setShowHow (showHow s)) s = s" by simp
  show ?thesis
  proof (cases "dispatch i s = s")
    case True
    with noop show ?thesis by metis
  next
    case False
    then show ?thesis
    proof (cases i)
      case Landing_Continue
      with False have "dispatch i s = call Call_Landing_onContinue s" by (simp split: if_splits)
      then show ?thesis ..
    next
      case (Auth_Verified raw)
      with False have "dispatch i s = call (Call_onAuthed raw) s" by (simp split: if_splits)
      then show ?thesis ..
    next
      case (Dest_PickLocation k)
      with False have "dispatch i s = call (Call_onPickLocation k) s" by (simp split: if_splits)
      then show ?thesis ..
    next
      case (Dest_PickArrivePoint k)
      with False have "dispatch i s = call (Call_onPickArrivePoint k) s"
        by (simp split: if_splits option.splits)
      then show ?thesis ..
    next
      case Dest_Continue
      with False have "dispatch i s = call Call_Destination_onContinue s"
        by (simp split: if_splits)
      then show ?thesis ..
    next
      case (Merchants_Select q k)
      with False have "\<exists>j. dispatch i s = call (Call_onSelect j) s"
        by (auto split: if_splits option.splits)
      then show ?thesis by blast
    next
      case Detail_Back
      with False have "dispatch i s = call Call_onBack s" by (simp split: if_splits)
      then show ?thesis ..
    next
      case (Detail_Checkout r)
      with False have "dispatch i s = call (Call_onCheckout r) s"
        by (simp split: if_splits option.splits)
      then show ?thesis ..
    next
      case Tracking_Back
      with False have "dispatch i s = call Call_onBack s" by (simp split: if_splits)
      then show ?thesis ..
    next
      case Tracking_Unlock
      with False have "dispatch i s = call Call_onUnlock s"
        by (simp split: if_splits option.splits)
      then show ?thesis ..
    next
      case Unlock_Done
      with False have "dispatch i s = call Call_onDone s" by (simp split: if_splits)
      then show ?thesis ..
    next
      case Timer_Fires
      then have "dispatch i s = call Call_timer s" by simp
      then show ?thesis ..
    next
      case How_Open
      then have "dispatch i s = call (Call_setShowHow True) s" by simp
      then show ?thesis ..
    next
      case How_Close
      with False have "dispatch i s = call (Call_setShowHow False) s" by (simp split: if_splits)
      then show ?thesis ..
    qed
  qed
qed

lemma call_leaving: "call c (s\<lparr>leaving := l\<rparr>) = (call c s)\<lparr>leaving := l\<rparr>"
  by (cases c) (simp_all add: handler_defs selectedMerchant_def split: option.splits list.splits)

lemma effects_leaving:
  "effects (p\<lparr>leaving := k\<rparr>) (s\<lparr>leaving := l\<rparr>) = (effects p s)\<lparr>leaving := l\<rparr>"
  by (simp add: effects_def progression_effect_def guardrails_def Let_def)

lemma run_is_calls_run: "\<exists>cs l. run loc is = (calls_run loc cs)\<lparr>leaving := l\<rparr>"
proof (induction "is" rule: rev_induct)
  case Nil
  have "run loc [] = (calls_run loc [])\<lparr>leaving := leaving (run loc [])\<rparr>"
    by (simp add: run_def calls_run_def)
  then show ?case by blast
next
  case (snoc i "is")
  then obtain cs l where cs: "run loc is = (calls_run loc cs)\<lparr>leaving := l\<rparr>" by blast
  let ?k = "calls_run loc cs"
  from dispatch_is_call obtain c
    where "dispatch i (?k\<lparr>leaving := l\<rparr>) = call c (?k\<lparr>leaving := l\<rparr>)" ..
  then have "effects (?k\<lparr>leaving := l\<rparr>) (dispatch i (?k\<lparr>leaving := l\<rparr>))
      = (effects ?k (call c ?k))\<lparr>leaving := l\<rparr>"
    by (simp only: call_leaving effects_leaving)
  then have "step (?k\<lparr>leaving := l\<rparr>) i
      = (call_step ?k c)\<lparr>leaving := leaving (step (?k\<lparr>leaving := l\<rparr>) i)\<rparr>"
    by (simp add: step_def call_step_def)
  with cs have "run loc (is @ [i])
      = (calls_run loc (cs @ [c]))\<lparr>leaving := leaving (step (?k\<lparr>leaving := l\<rparr>) i)\<rparr>"
    by (simp add: run_snoc calls_run_def)
  then show ?case by blast
qed

lemma call_off_landing:
  assumes "signed_in_off_landing s"
  shows "signed_in_off_landing (call c s)"
  using assms
  by (cases c)
     (auto simp add: signed_in_off_landing_def handler_defs split: option.splits list.splits)

lemma effects_off_landing:
  "signed_in_off_landing s \<Longrightarrow> signed_in_off_landing (effects p s)"
  by (simp add: signed_in_off_landing_def effects_def guardrails_landing)

lemma calls_run_off_landing: "signed_in_off_landing (calls_run loc cs)"
proof (induction cs rule: rev_induct)
  case Nil
  show ?case
    by (cases loc)
       (simp_all add: calls_run_def signed_in_off_landing_def mount_def effects_def
          deep_link_def initial_def)
next
  case (snoc c cs)
  then show ?case
    by (simp add: calls_run_def call_step_def call_off_landing effects_off_landing)
qed

lemma guard_forces_destination_in_session:
  assumes "user (call c (calls_run loc cs)) \<noteq> None"
    and "locationId (call c (calls_run loc cs)) = [] \<or> arrivePointId (call c (calls_run loc cs)) = []"
    and "screen (call c (calls_run loc cs)) \<noteq> AUTH"
    and "screen (call c (calls_run loc cs)) \<noteq> DESTINATION"
  shows "screen (guardrails (call c (calls_run loc cs))) = DESTINATION"
proof -
  let ?p = "call c (calls_run loc cs)"
  have "signed_in_off_landing ?p" by (intro call_off_landing calls_run_off_landing)
  with assms(1) have "screen ?p \<noteq> LANDING" by (simp add: signed_in_off_landing_def)
  with assms show ?thesis
    by (intro guardrails_forces_destination) (auto simp add: canContinue_def)
qed

lemma calls_run_Nil: "calls_run loc [] = mount loc"
  by (simp add: calls_run_def)

lemma calls_run_snoc: "calls_run loc (cs @ [c]) = call_step (calls_run loc cs) c"
  by (simp add: calls_run_def)

lemma calls_run_gated: "guardrails (calls_run loc cs) = calls_run loc cs"
  by (cases cs rule: rev_cases)
     (simp_all add: calls_run_Nil calls_run_snoc mount_def call_step_def effects_def guardrails_idem)

lemmas calls_defs = calls_run_def call_step_def

subsection \<open>Progress of the order status\<close>

lemma timer_step_order:
  assumes "order_ok s" and "order s = Some ord" and "status ord \<noteq> ''DELIVERED''"
  shows "\<exists>nxt. order (step s Timer_Fires) = Some (ord\<lparr>status := nxt\<rparr>) \<and>
              status_idx nxt = status_idx (status ord) + 1"
proof -
  from assms(1,2) have t: "timers s = schedule (Some ord)" and k: "known_status (status ord)"
    by (simp_all add: order_ok_def)
  from schedule_in_sequence [OF k assms(3)] obtain nxt ms
    where sc: "schedule (Some ord) = [(nxt, ms)]" by blast
  from schedule_Cons [OF sc] have "status_idx nxt = status_idx (status ord) + 1" by simp
  moreover from t sc assms(2) have "order (step s Timer_Fires) = Some (ord\<lparr>status := nxt\<rparr>)"
    by (simp add: step_fields advance_def)
  ultimately show ?thesis by blast
qed

lemma timer_step_delivered:
  assumes "order_ok s" and "guardrails s = s" and "order s = Some ord"
    and "status ord = ''DELIVERED''"
  shows "step s Timer_Fires = s"
proof (rule step_settled_noop)
  show "guardrails s = s" by fact
  from assms(1,3,4) show "dispatch Timer_Fires s = s"
    by (simp add: order_ok_def schedule_delivered)
qed

lemma step_order_progress:
  assumes "order_ok s" and "guardrails s = s" and "order s = Some ord"
    and "\<forall>r. i \<noteq> Detail_Checkout r"
  shows "\<exists>nxt. order (step s i) = Some (ord\<lparr>status := nxt\<rparr>) \<and>
           status_idx (status ord) \<le> status_idx nxt \<and>
           status_idx nxt \<le> status_idx (status ord) + 1"
proof (cases "i = Timer_Fires")
  case False
  with assms(3,4) dispatch_order_unchanged [of i s]
  have "order (step s i) = Some (ord\<lparr>status := status ord\<rparr>)" by (simp add: step_fields)
  then show ?thesis by force
next
  case True
  show ?thesis
  proof (cases "status ord = ''DELIVERED''")
    case True
    from timer_step_delivered [OF assms(1-3) True] assms(3) \<open>i = Timer_Fires\<close>
    have "order (step s i) = Some (ord\<lparr>status := status ord\<rparr>)" by simp
    then show ?thesis by force
  next
    case False
    from timer_step_order [OF assms(1,3) False] \<open>i = Timer_Fires\<close> show ?thesis by force
  qed
qed

lemma run_order_progress:
  assumes "order (run loc is) = Some ord"
    and "\<forall>j \<in> set js. \<forall>r. j \<noteq> Detail_Checkout r"
  shows "\<exists>nxt. order (run loc (is @ js)) = Some (ord\<lparr>status := nxt\<rparr>) \<and>
           status_idx (status ord) \<le> status_idx nxt \<and>
           status_idx nxt \<le> status_idx (status ord) + int (length js)"
  using assms(2)
proof (induction js rule: rev_induct)
  case Nil
  from assms(1) have "order (run loc (is @ [])) = Some (ord\<lparr>status := status ord\<rparr>)" by simp
  then show ?case by force
next
  case (snoc j js)
  then obtain mid where mid: "order (run loc (is @ js)) = Some (ord\<lparr>status := mid\<rparr>)"
    "status_idx (status ord) \<le> status_idx mid"
    "status_idx mid \<le> status_idx (status ord) + int (length js)"
    by auto
  from snoc.prems have j: "\<forall>r. j \<noteq> Detail_Checkout r" by simp
  from step_order_progress [OF run_order_ok session_inv_gated mid(1) j]
  obtain nxt where nxt: "order (step (run loc (is @ js)) j) = Some (ord\<lparr>status := mid, status := nxt\<rparr>)"
    "status_idx mid \<le> status_idx nxt" "status_idx nxt \<le> status_idx mid + 1"
    by auto
  have "run loc (is @ js @ [j]) = step (run loc (is @ js)) j"
    using run_snoc [of loc "is @ js" j] by simp
  with nxt(1) have "order (run loc (is @ js @ [j])) = Some (ord\<lparr>status := nxt\<rparr>)" by simp
  moreover from mid(2) nxt(2) have "status_idx (status ord) \<le> status_idx nxt" by simp
  moreover from mid(3) nxt(3)
  have "status_idx nxt \<le> status_idx (status ord) + int (length (js @ [j]))" by simp
  ultimately show ?case by blast
qed

subsection \<open>Effects and pending timers\<close>

lemma guardrails_on_landing: "screen s = LANDING \<Longrightarrow> guardrails s = s"
  by (simp add: guardrails_def)

lemma guardrails_same_dependencies:
  assumes "guardrails p = p"
    and "screen s = screen p" and "user s = user p"
    and "locationId s = locationId p" and "arrivePointId s = arrivePointId p"
  shows "guardrails s = s"
  using assms by (simp add: guardrails_fixed_iff canContinue_def)

lemma effects_timers:
  assumes "timers s = schedule (order s)" and "timers t = timers s"
  shows "timers (effects s t) = schedule (order (effects s t))"
proof (cases "map_option status (order s) = map_option status (order t)")
  case True
  then have "schedule (order s) = schedule (order t)" by (rule schedule_status)
  with True assms show ?thesis by (simp add: effects_def progression_effect_def)
next
  case False
  then show ?thesis by (simp add: effects_def progression_effect_def)
qed

lemma timer_effects_timers:
  assumes "timers s = schedule (order s)"
  shows "timers (effects s (dispatch Timer_Fires s)) =
         schedule (order (effects s (dispatch Timer_Fires s)))"
proof (cases "timers s")
  case Nil
  then have "dispatch Timer_Fires s = s" by simp
  with assms show ?thesis by (simp add: effects_timers)
next
  case (Cons e rest)
  obtain nxt ms where e: "e = (nxt, ms)" by (cases e)
  with Cons assms obtain ord where ord: "order s = Some ord"
    by (cases "order s") (simp_all add: schedule_def)
  with Cons e assms have sc: "schedule (Some ord) = (nxt, ms) # rest" by simp
  from schedule_Cons [OF sc] have "status ord \<noteq> nxt" by auto
  with Cons e ord show ?thesis
    by (simp add: effects_def progression_effect_def advance_def)
qed

lemma call_keeps_timers: "c \<noteq> Call_timer \<Longrightarrow> timers (call c s) = timers s"
  by (cases c) (simp_all add: handler_defs split: option.splits)

lemma calls_run_timers: "timers (calls_run loc cs) = schedule (order (calls_run loc cs))"
proof (induction cs rule: rev_induct)
  case Nil
  show ?case
    by (cases loc)
       (simp_all add: calls_run_def mount_def effects_def progression_effect_def
          deep_link_def initial_def schedule_def)
next
  case (snoc c cs)
  show ?case
  proof (cases "c = Call_timer")
    case True
    with timer_effects_timers [OF snoc] show ?thesis
      by (simp add: calls_run_snoc call_step_def)
  next
    case False
    from effects_timers [OF snoc call_keeps_timers [OF False]] show ?thesis
      by (simp add: calls_run_snoc call_step_def)
  qed
qed

lemma pending_timer_has_order:
  "timers (calls_run loc cs) \<noteq> [] \<Longrightarrow> order (calls_run loc cs) \<noteq> None"
proof
  assume "timers (calls_run loc cs) \<noteq> []" and "order (calls_run loc cs) = None"
  with calls_run_timers [of loc cs] show False by (simp add: schedule_def)
qed

subsection \<open>The identifier, read back\<close>

lemma merchant_texts_ascii:
  "\<forall>m \<in> set MERCHANTS. \<forall>c \<in> set (m_name m @ m_category m). (of_char c :: nat) < 128"
  by (simp add: MERCHANTS_def)

lemma filtered_empty: "filtered [] = MERCHANTS"
  by (simp add: filtered_def)

lemma digit_value_nth: "k < 10 \<Longrightarrow> digit_value (''0123456789'' ! k) = k"
proof -
  assume "k < 10"
  then have "k = 0 \<or> k = 1 \<or> k = 2 \<or> k = 3 \<or> k = 4 \<or> k = 5 \<or> k = 6 \<or> k = 7 \<or> k = 8 \<or> k = 9"
    by arith
  then show ?thesis by (elim disjE) (simp_all add: digit_value_def)
qed

lemma digit_value_digit_char: "digit_value (digit_char d) = d mod 10"
  by (simp only: digit_char_def) (rule digit_value_nth, simp)

lemma decimal_value_snoc: "decimal_value (cs @ [c]) = 10 * decimal_value cs + digit_value c"
  by (simp add: decimal_value_def)

lemma decimal_value_string_of_nat: "decimal_value (string_of_nat n) = n"
proof (induction n rule: string_of_nat.induct)
  case (1 n)
  show ?case
  proof (cases "n < 10")
    case True
    then show ?thesis
      by (simp add: string_of_nat_small decimal_value_def digit_value_digit_char)
  next
    case False
    with "1" show ?thesis
      by (simp add: string_of_nat_big decimal_value_snoc digit_value_digit_char)
  qed
qed

lemma string_of_nat_inject: "string_of_nat a = string_of_nat b \<Longrightarrow> a = b"
  by (metis decimal_value_string_of_nat)

subsection \<open>Reaching checkout again\<close>

lemma step_screen_kept:
  assumes "user (dispatch i s) \<noteq> None" and "canContinue (dispatch i s)"
  shows "screen (step s i) = screen (dispatch i s)"
proof -
  have "guardrails (progression_effect s (dispatch i s)) = progression_effect s (dispatch i s)"
    using assms by (intro guardrails_keeps) (simp_all add: canContinue_def)
  then show ?thesis by (simp add: step_def effects_def)
qed

lemma select_then_checkout:
  assumes "screen s = MERCHANTS_SCREEN" and "user s \<noteq> None" and "canContinue s"
    and "m \<in> set MERCHANTS" and "m_open m"
  shows "order (step (step s (Merchants_Select [] (m_id m))) (Detail_Checkout r)) =
           Some \<lparr>order_id = ''VP-'' @ string_of_nat (r + 10000), status = ''PLACED'',
                  merchantName = m_name m, eta = etaMins m\<rparr>"
proof -
  let ?s1 = "step s (Merchants_Select [] (m_id m))"
  from assms(1,4,5) have d: "dispatch (Merchants_Select [] (m_id m)) s = onSelect (m_id m) s"
    by (simp add: filtered_empty open_merchant_resolves)
  with assms(2,3) have "screen ?s1 = MERCHANT_DETAIL"
    by (subst step_screen_kept) (simp_all add: onSelect_def canContinue_def)
  moreover from d have "selectedMerchantId ?s1 = Some (m_id m)"
    by (simp add: step_fields onSelect_def)
  with assms(4) have "selectedMerchant ?s1 = Some m"
    by (simp add: selectedMerchant_def open_merchant_resolves)
  ultimately have "dispatch (Detail_Checkout r) ?s1 = onCheckout r m ?s1" by simp
  then show ?thesis by (simp add: step_fields onCheckout_def)
qed

lemma back_to_merchants:
  assumes "screen (run loc is) = TRACKING"
  shows "screen (step (run loc is) Tracking_Back) = MERCHANTS_SCREEN \<and>
         user (step (run loc is) Tracking_Back) \<noteq> None \<and>
         canContinue (step (run loc is) Tracking_Back) \<and> order (run loc is) \<noteq> None"
proof -
  let ?r = "run loc is"
  from assms run_order_ok [of loc "is"] have o: "order ?r \<noteq> None"
    by (auto simp add: order_ok_def split: option.splits)
  with assms have d: "dispatch Tracking_Back ?r = onBack ?r" by simp
  from assms run_gated_screen [of loc "is"] have u: "user ?r \<noteq> None \<and> canContinue ?r" by simp
  with d have "screen (step ?r Tracking_Back) = MERCHANTS_SCREEN"
    by (subst step_screen_kept) (simp_all add: onBack_def canContinue_def)
  with d u o show ?thesis by (simp add: step_fields onBack_def canContinue_def)
qed

lemma done_to_merchants:
  assumes "screen (run loc is) = UNLOCK"
  shows "screen (step (run loc is) Unlock_Done) = MERCHANTS_SCREEN \<and>
         user (step (run loc is) Unlock_Done) \<noteq> None \<and>
         canContinue (step (run loc is) Unlock_Done) \<and> order (run loc is) \<noteq> None"
proof -
  let ?r = "run loc is"
  from assms run_order_ok [of loc "is"] have o: "order ?r \<noteq> None"
    by (auto simp add: order_ok_def split: option.splits)
  with assms have d: "dispatch Unlock_Done ?r = onDone ?r" by simp
  from assms run_gated_screen [of loc "is"] have u: "user ?r \<noteq> None \<and> canContinue ?r" by simp
  with d have "screen (step ?r Unlock_Done) = MERCHANTS_SCREEN"
    by (subst step_screen_kept) (simp_all add: onDone_def canContinue_def)
  with d u o show ?thesis by (simp add: step_fields onDone_def canContinue_def)
qed

lemma run_three: "run loc (is @ [a, b, c]) = step (step (step (run loc is) a) b) c"
  by (simp add: run_def)

lemma run_two: "run loc (is @ [a, b]) = step (step (run loc is) a) b"
  by (simp add: run_def)

lemma checkout_twice:
  assumes "screen (run loc is) = MERCHANT_DETAIL"
  shows "\<exists>m \<in> set MERCHANTS. selectedMerchant (run loc is) = Some m \<and>
           order (step (run loc is) (Detail_Checkout r)) =
             Some \<lparr>order_id = ''VP-'' @ string_of_nat (r + 10000), status = ''PLACED'',
                    merchantName = m_name m, eta = etaMins m\<rparr> \<and>
           order (run loc (is @ [Detail_Checkout r, Detail_Checkout r'])) =
             Some \<lparr>order_id = ''VP-'' @ string_of_nat (r' + 10000), status = ''PLACED'',
                    merchantName = m_name m, eta = etaMins m\<rparr>"
proof -
  let ?r = "run loc is"
  let ?s1 = "step ?r (Detail_Checkout r)"
  from assms run_merchant_ok [of loc "is"] obtain m where m: "selectedMerchant ?r = Some m"
    by (cases "selectedMerchant ?r") (auto simp add: merchant_ok_def)
  then obtain k where "find (\<lambda>m. m_id m = k) MERCHANTS = Some m"
    by (auto simp add: selectedMerchant_def split: option.splits)
  from find_key_mem [OF this] have mem: "m \<in> set MERCHANTS" by simp
  from assms m have e: "dispatch (Detail_Checkout r) ?r = onCheckout r m ?r" by simp
  then have o1: "order ?s1 = Some \<lparr>order_id = ''VP-'' @ string_of_nat (r + 10000),
      status = ''PLACED'', merchantName = m_name m, eta = etaMins m\<rparr>"
    by (simp add: step_fields onCheckout_def)
  from assms run_gated_screen [of loc "is"] have "user ?r \<noteq> None \<and> canContinue ?r" by simp
  with e have "screen ?s1 = TRACKING"
    by (subst step_screen_kept) (simp_all add: onCheckout_def canContinue_def)
  with assms have "leaving ?s1 = Some MERCHANT_DETAIL"
    by (simp add: step_def new_leaving_def)
  then have "shown ?s1 MERCHANT_DETAIL" by (simp add: shown_def)
  moreover from e m have "selectedMerchant ?s1 = Some m"
    using selectedMerchant_cong [of ?s1 ?r] by (simp add: step_fields onCheckout_def)
  ultimately have "dispatch (Detail_Checkout r') ?s1 = onCheckout r' m ?s1" by simp
  then have "order (step ?s1 (Detail_Checkout r')) =
      Some \<lparr>order_id = ''VP-'' @ string_of_nat (r' + 10000), status = ''PLACED'',
             merchantName = m_name m, eta = etaMins m\<rparr>"
    by (simp add: step_fields onCheckout_def)
  with m mem o1 show ?thesis by (auto simp add: run_two simp del: dispatch.simps)
qed

section \<open>The claims\<close>

subsection \<open>C1: without a user the screen is LANDING or AUTH\<close>

text \<open>
  C1. After any sequence of events, a session whose \<open>user\<close> is unset shows LANDING or
  AUTH; the same holds when the callbacks of \<open>App\<close> come in any order. The guard alone
  gives this for every state: with no user it leaves only LANDING or AUTH, and from any
  screen other than LANDING it sets AUTH.
\<close>

theorem guard_without_user:
  "(user (run loc is) = None \<longrightarrow>
      screen (run loc is) = LANDING \<or> screen (run loc is) = AUTH) \<and>
   (user (calls_run loc' cs) = None \<longrightarrow>
      screen (calls_run loc' cs) = LANDING \<or> screen (calls_run loc' cs) = AUTH) \<and>
   (user s = None \<longrightarrow> screen (guardrails s) = LANDING \<or> screen (guardrails s) = AUTH) \<and>
   (user s = None \<and> screen s \<noteq> LANDING \<longrightarrow> screen (guardrails s) = AUTH)"
proof (intro conjI impI)
  assume "user (run loc is) = None"
  from guardrails_no_user [OF this] show "screen (run loc is) = LANDING \<or> screen (run loc is) = AUTH"
    by (simp add: session_inv_gated)
next
  assume "user (calls_run loc' cs) = None"
  from guardrails_no_user [OF this]
  show "screen (calls_run loc' cs) = LANDING \<or> screen (calls_run loc' cs) = AUTH"
    by (simp add: calls_run_gated)
next
  assume "user s = None"
  then show "screen (guardrails s) = LANDING \<or> screen (guardrails s) = AUTH"
    by (rule guardrails_no_user)
next
  assume "user s = None \<and> screen s \<noteq> LANDING"
  then show "screen (guardrails s) = AUTH" by (simp add: guardrails_forces_auth)
qed

text \<open>The session after ``Continue'', two callbacks called straight from LANDING, and a
  state without user placed on TRACKING.\<close>

theorem guard_without_user_witness:
  "user (run None [Landing_Continue, Dest_Continue]) = None \<and>
   screen (run None [Landing_Continue, Dest_Continue]) = AUTH \<and>
   user (calls_run None [Call_Destination_onContinue, Call_onSelect ''merchant-1'']) = None \<and>
   screen (calls_run None [Call_Destination_onContinue, Call_onSelect ''merchant-1'']) = AUTH \<and>
   user (initial\<lparr>screen := TRACKING\<rparr>) = None \<and>
   screen (initial\<lparr>screen := TRACKING\<rparr>) \<noteq> LANDING \<and>
   screen (guardrails (initial\<lparr>screen := TRACKING\<rparr>)) = AUTH"
proof -
  let ?cs = "[Call_Destination_onContinue, Call_onSelect ''merchant-1'']"
  have h1: "user (run None [Landing_Continue, Dest_Continue]) = None"
    by (simp add: run_defs)
  have h2: "user (initial\<lparr>screen := TRACKING\<rparr>) = None \<and>
            screen (initial\<lparr>screen := TRACKING\<rparr>) \<noteq> LANDING"
    by (simp add: initial_def)
  have h3: "screen (run None [Landing_Continue, Dest_Continue]) \<noteq> LANDING"
    by (simp add: run_defs)
  have h4: "user (calls_run None ?cs) = None" "screen (calls_run None ?cs) \<noteq> LANDING"
    by (simp_all add: calls_defs run_defs)
  from guard_without_user [of None "[Landing_Continue, Dest_Continue]" None ?cs
      "initial\<lparr>screen := TRACKING\<rparr>"]
    h1 h2 h3 h4 show ?thesis by simp
qed

subsection \<open>C2: an incomplete destination keeps the session off the later screens\<close>

text \<open>
  C2. For every state with a user and an empty \<open>locationId\<close> or \<open>arrivePointId\<close>, the
  screen after the guard is none of MERCHANTS, MERCHANT_DETAIL, TRACKING, UNLOCK.
  Whenever a callback of \<open>App\<close>, called in a session in any order, leaves a state with
  a user, an incomplete destination and a screen other than AUTH and DESTINATION, the
  guard sets DESTINATION. (The guard returns at once on LANDING; no callback leaves a
  state on LANDING that has a user, \<open>calls_run_off_landing\<close>.) A session with a user and
  an incomplete destination shows AUTH or DESTINATION.
\<close>

theorem guard_incomplete_destination:
  "(user s \<noteq> None \<and> (locationId s = [] \<or> arrivePointId s = []) \<longrightarrow>
      screen (guardrails s) \<noteq> MERCHANTS_SCREEN \<and> screen (guardrails s) \<noteq> MERCHANT_DETAIL \<and>
      screen (guardrails s) \<noteq> TRACKING \<and> screen (guardrails s) \<noteq> UNLOCK) \<and>
   (user (call c (calls_run loc cs)) \<noteq> None \<and>
    (locationId (call c (calls_run loc cs)) = [] \<or>
     arrivePointId (call c (calls_run loc cs)) = []) \<and>
    screen (call c (calls_run loc cs)) \<noteq> AUTH \<and>
    screen (call c (calls_run loc cs)) \<noteq> DESTINATION \<longrightarrow>
      screen (guardrails (call c (calls_run loc cs))) = DESTINATION \<and>
      screen (call_step (calls_run loc cs) c) = DESTINATION) \<and>
   (user (run loc' is) \<noteq> None \<and>
    (locationId (run loc' is) = [] \<or> arrivePointId (run loc' is) = []) \<longrightarrow>
      screen (run loc' is) = AUTH \<or> screen (run loc' is) = DESTINATION)"
proof (intro conjI impI)
  assume a: "user s \<noteq> None \<and> (locationId s = [] \<or> arrivePointId s = [])"
  then have "screen (guardrails s) \<in> {LANDING, AUTH, DESTINATION}"
    by (intro guardrails_incomplete) (auto simp add: canContinue_def)
  then show "screen (guardrails s) \<noteq> MERCHANTS_SCREEN" "screen (guardrails s) \<noteq> MERCHANT_DETAIL"
    "screen (guardrails s) \<noteq> TRACKING" "screen (guardrails s) \<noteq> UNLOCK"
    by auto
next
  let ?p = "call c (calls_run loc cs)"
  assume a: "user ?p \<noteq> None \<and> (locationId ?p = [] \<or> arrivePointId ?p = []) \<and>
    screen ?p \<noteq> AUTH \<and> screen ?p \<noteq> DESTINATION"
  then show g: "screen (guardrails ?p) = DESTINATION"
    by (intro guard_forces_destination_in_session) simp_all
  have "screen (call_step (calls_run loc cs) c) =
        screen (guardrails (progression_effect (calls_run loc cs) ?p))"
    by (simp add: call_step_def effects_def)
  also have "\<dots> = DESTINATION"
    using a g by (simp add: guardrails_def progression_effect_def Let_def split: if_splits)
  finally show "screen (call_step (calls_run loc cs) c) = DESTINATION" .
next
  let ?r = "run loc' is"
  assume a: "user ?r \<noteq> None \<and> (locationId ?r = [] \<or> arrivePointId ?r = [])"
  have "gated ?r" using session_inv_run [of loc' "is"] by (simp add: session_inv_def)
  with a have "screen ?r \<noteq> LANDING" and "guardrails ?r = ?r" by (simp_all add: gated_def)
  moreover from a have "screen (guardrails ?r) \<in> {LANDING, AUTH, DESTINATION}"
    by (intro guardrails_incomplete) (auto simp add: canContinue_def)
  ultimately show "screen ?r = AUTH \<or> screen ?r = DESTINATION" by auto
qed

text \<open>A signed-in state placed on TRACKING, ``Continue to merchants'' called right after
  sign-in with nothing picked, and the same attempt through the disabled button.\<close>

theorem guard_incomplete_destination_witness:
  "user (initial\<lparr>user := Some \<lparr>phone = ''3175550123''\<rparr>, screen := TRACKING\<rparr>) \<noteq> None \<and>
   locationId (initial\<lparr>user := Some \<lparr>phone = ''3175550123''\<rparr>, screen := TRACKING\<rparr>) = [] \<and>
   screen (guardrails (initial\<lparr>user := Some \<lparr>phone = ''3175550123''\<rparr>, screen := TRACKING\<rparr>))
     \<noteq> TRACKING \<and>
   user (call Call_Destination_onContinue
          (calls_run None [Call_Landing_onContinue, Call_onAuthed ''3175550123''])) \<noteq> None \<and>
   locationId (call Call_Destination_onContinue
          (calls_run None [Call_Landing_onContinue, Call_onAuthed ''3175550123''])) = [] \<and>
   screen (call Call_Destination_onContinue
          (calls_run None [Call_Landing_onContinue, Call_onAuthed ''3175550123'']))
     = MERCHANTS_SCREEN \<and>
   screen (guardrails (call Call_Destination_onContinue
          (calls_run None [Call_Landing_onContinue, Call_onAuthed ''3175550123''])))
     = DESTINATION \<and>
   user (run None [Landing_Continue, Auth_Verified ''3175550123'', Dest_Continue]) \<noteq> None \<and>
   locationId (run None [Landing_Continue, Auth_Verified ''3175550123'', Dest_Continue]) = [] \<and>
   screen (run None [Landing_Continue, Auth_Verified ''3175550123'', Dest_Continue]) = DESTINATION"
proof -
  let ?s = "initial\<lparr>user := Some \<lparr>phone = ''3175550123''\<rparr>, screen := TRACKING\<rparr>"
  let ?cs = "[Call_Landing_onContinue, Call_onAuthed ''3175550123'']"
  let ?p = "call Call_Destination_onContinue (calls_run None ?cs)"
  let ?is = "[Landing_Continue, Auth_Verified ''3175550123'', Dest_Continue]"
  have s: "user ?s \<noteq> None" "locationId ?s = []"
    by (simp_all add: initial_def)
  have "?p = initial\<lparr>screen := MERCHANTS_SCREEN, user := Some \<lparr>phone = ''3175550123''\<rparr>\<rparr>"
    by (simp add: calls_defs run_defs)
  then have p: "user ?p \<noteq> None" "locationId ?p = []" "screen ?p = MERCHANTS_SCREEN"
    by (simp_all add: initial_def del: call.simps)
  then have p': "screen ?p \<noteq> AUTH" "screen ?p \<noteq> DESTINATION"
    by (simp_all del: call.simps)
  have r: "user (run None ?is) \<noteq> None" "locationId (run None ?is) = []"
    "screen (run None ?is) \<noteq> AUTH"
    by (simp_all add: run_defs)
  note inst = guard_incomplete_destination [of ?s Call_Destination_onContinue None ?cs None ?is]
  from inst s have c1: "screen (guardrails ?s) \<noteq> TRACKING" by blast
  from inst p p' have c2: "screen (guardrails ?p) = DESTINATION" by blast
  from inst r have c3: "screen (run None ?is) = DESTINATION" by blast
  from s p r c1 c2 c3 show ?thesis by blast
qed

subsection \<open>C3: the order status advances one step at a time\<close>

text \<open>
  C3. In every session that has an order, its status is one of the seven keys of the
  step list. When the status is DELIVERED the timer event changes nothing. Otherwise
  the pending timer writes the key at the next position of the list
  (\<open>status_idx\<close> grows by exactly one) and leaves the other fields of the order alone.
  Every event other than the timer and a checkout leaves the order as it is, so over
  any further events without a checkout the position never decreases and grows by at
  most one per event.
\<close>

theorem order_status_progression:
  assumes "order (run loc is) = Some ord"
  shows "known_status (status ord) \<and>
    (status ord = ''DELIVERED'' \<longrightarrow> step (run loc is) Timer_Fires = run loc is) \<and>
    (status ord \<noteq> ''DELIVERED'' \<longrightarrow>
       (\<exists>nxt. order (step (run loc is) Timer_Fires) = Some (ord\<lparr>status := nxt\<rparr>) \<and>
              status_idx nxt = status_idx (status ord) + 1)) \<and>
    (i \<noteq> Timer_Fires \<and> (\<forall>r. i \<noteq> Detail_Checkout r) \<longrightarrow>
       order (step (run loc is) i) = Some ord) \<and>
    ((\<forall>j \<in> set js. \<forall>r. j \<noteq> Detail_Checkout r) \<longrightarrow>
       (\<exists>nxt. order (run loc (is @ js)) = Some (ord\<lparr>status := nxt\<rparr>) \<and>
              status_idx (status ord) \<le> status_idx nxt \<and>
              status_idx nxt \<le> status_idx (status ord) + int (length js)))"
proof (intro conjI impI)
  let ?s = "run loc is"
  note ok = run_order_ok [of loc "is"]
  from ok assms show "known_status (status ord)" by (simp add: order_ok_def)
  show "step ?s Timer_Fires = ?s" if "status ord = ''DELIVERED''"
    using ok session_inv_gated assms that by (rule timer_step_delivered)
  show "\<exists>nxt. order (step ?s Timer_Fires) = Some (ord\<lparr>status := nxt\<rparr>) \<and>
              status_idx nxt = status_idx (status ord) + 1" if "status ord \<noteq> ''DELIVERED''"
    using ok assms that by (rule timer_step_order)
  show "order (step ?s i) = Some ord"
    if "i \<noteq> Timer_Fires \<and> (\<forall>r. i \<noteq> Detail_Checkout r)"
    using that assms dispatch_order_unchanged [of i ?s] by (simp add: step_fields)
  show "\<exists>nxt. order (run loc (is @ js)) = Some (ord\<lparr>status := nxt\<rparr>) \<and>
              status_idx (status ord) \<le> status_idx nxt \<and>
              status_idx nxt \<le> status_idx (status ord) + int (length js)"
    if "\<forall>j \<in> set js. \<forall>r. j \<noteq> Detail_Checkout r"
    using assms that by (rule run_order_progress)
qed

text \<open>The session right after a checkout: the timer moves PLACED to ACCEPTED, and
  ``Back to merchants'' leaves the order untouched.\<close>

theorem order_status_progression_witness:
  "order (run None [Landing_Continue, Auth_Verified ''3175550123'',
       Dest_PickLocation ''vp-building-a'', Dest_PickArrivePoint ''AP-201'', Dest_Continue,
       Merchants_Select [] ''merchant-1'', Detail_Checkout 42])
     = Some \<lparr>order_id = ''VP-10042'', status = ''PLACED'', merchantName = ''Sushi & Bowls'', eta = 28\<rparr> \<and>
   order (step (run None [Landing_Continue, Auth_Verified ''3175550123'',
       Dest_PickLocation ''vp-building-a'', Dest_PickArrivePoint ''AP-201'', Dest_Continue,
       Merchants_Select [] ''merchant-1'', Detail_Checkout 42]) Timer_Fires)
     = Some \<lparr>order_id = ''VP-10042'', status = ''ACCEPTED'', merchantName = ''Sushi & Bowls'', eta = 28\<rparr> \<and>
   order (step (run None [Landing_Continue, Auth_Verified ''3175550123'',
       Dest_PickLocation ''vp-building-a'', Dest_PickArrivePoint ''AP-201'', Dest_Continue,
       Merchants_Select [] ''merchant-1'', Detail_Checkout 42]) Tracking_Back)
     = Some \<lparr>order_id = ''VP-10042'', status = ''PLACED'', merchantName = ''Sushi & Bowls'', eta = 28\<rparr> \<and>
   (\<exists>nxt. order (run None ([Landing_Continue, Auth_Verified ''3175550123'',
       Dest_PickLocation ''vp-building-a'', Dest_PickArrivePoint ''AP-201'', Dest_Continue,
       Merchants_Select [] ''merchant-1'', Detail_Checkout 42] @
       [Timer_Fires, Tracking_Back, Timer_Fires]))
     = Some \<lparr>order_id = ''VP-10042'', status = nxt, merchantName = ''Sushi & Bowls'', eta = 28\<rparr> \<and>
     0 \<le> status_idx nxt \<and> status_idx nxt \<le> 3)"
proof -
  let ?is = "[Landing_Continue, Auth_Verified ''3175550123'',
       Dest_PickLocation ''vp-building-a'', Dest_PickArrivePoint ''AP-201'', Dest_Continue,
       Merchants_Select [] ''merchant-1'', Detail_Checkout 42]"
  let ?js = "[Timer_Fires, Tracking_Back, Timer_Fires]"
  let ?ord = "\<lparr>order_id = ''VP-10042'', status = ''PLACED'', merchantName = ''Sushi & Bowls'', eta = 28\<rparr>"
  have h: "order (run None ?is) = Some ?ord"
    by (simp add: run_defs)
  have n: "status ?ord \<noteq> ''DELIVERED''" by simp
  have q: "\<forall>j \<in> set ?js. \<forall>r. j \<noteq> Detail_Checkout r" by simp
  note inst = order_status_progression [OF h, of Tracking_Back ?js]
  from inst n obtain nxt
    where a: "order (step (run None ?is) Timer_Fires) = Some (?ord\<lparr>status := nxt\<rparr>)"
      and b: "status_idx nxt = status_idx (status ?ord) + 1"
    by blast
  from inst have c: "order (step (run None ?is) Tracking_Back) = Some ?ord" by blast
  from inst q obtain fin
    where d: "order (run None (?is @ ?js)) = Some (?ord\<lparr>status := fin\<rparr>)"
      and e: "status_idx (status ?ord) \<le> status_idx fin"
             "status_idx fin \<le> status_idx (status ?ord) + int (length ?js)"
    by blast
  have a': "order (step (run None ?is) Timer_Fires) = Some (?ord\<lparr>status := ''ACCEPTED''\<rparr>)"
    by (simp add: step_fields h) (simp add: run_defs)
  from d e have "order (run None (?is @ ?js))
        = Some \<lparr>order_id = ''VP-10042'', status = fin, merchantName = ''Sushi & Bowls'', eta = 28\<rparr> \<and>
      0 \<le> status_idx fin \<and> status_idx fin \<le> 3"
    by (simp add: status_idx_keys del: append.simps)
  then have f: "\<exists>nxt. order (run None (?is @ ?js))
        = Some \<lparr>order_id = ''VP-10042'', status = nxt, merchantName = ''Sushi & Bowls'', eta = 28\<rparr> \<and>
      0 \<le> status_idx nxt \<and> status_idx nxt \<le> 3" ..
  from a' have a'': "order (step (run None ?is) Timer_Fires)
     = Some \<lparr>order_id = ''VP-10042'', status = ''ACCEPTED'', merchantName = ''Sushi & Bowls'', eta = 28\<rparr>"
    by simp
  from h a'' c f show ?thesis by blast
qed

subsection \<open>C4: picking a location clears the arrive point\<close>

text \<open>
  C4, as stated, says that picking the location that is already selected leaves the
  chosen arrive point in place. \<open>onPickLocation\<close> clears it every time: after
  Building A and AP-201 are picked, picking Building A again empties \<open>arrivePointId\<close>.
\<close>

theorem pick_location_reselect_counterexample:
  "locationId (run None [Landing_Continue, Auth_Verified ''3175550123'',
       Dest_PickLocation ''vp-building-a'', Dest_PickArrivePoint ''AP-201'']) = ''vp-building-a'' \<and>
   arrivePointId (run None [Landing_Continue, Auth_Verified ''3175550123'',
       Dest_PickLocation ''vp-building-a'', Dest_PickArrivePoint ''AP-201'']) = ''AP-201'' \<and>
   arrivePointId (run None [Landing_Continue, Auth_Verified ''3175550123'',
       Dest_PickLocation ''vp-building-a'', Dest_PickArrivePoint ''AP-201'',
       Dest_PickLocation ''vp-building-a'']) = []"
  by (simp add: run_defs)

text \<open>
  C4, amended. Picking a location sets \<open>locationId\<close> to the picked id and empties
  \<open>arrivePointId\<close>, whether or not the id was already selected; picking the same
  location twice gives the same state as picking it once.
\<close>

theorem pick_location_clears:
  "locationId (onPickLocation i s) = i \<and>
   arrivePointId (onPickLocation i s) = [] \<and>
   onPickLocation i (onPickLocation i s) = onPickLocation i s \<and>
   dispatch (Dest_PickLocation i) (dispatch (Dest_PickLocation i) s) =
     dispatch (Dest_PickLocation i) s \<and>
   (dispatch (Dest_PickLocation i) s \<noteq> s \<longrightarrow>
      locationId (dispatch (Dest_PickLocation i) s) = i \<and>
      arrivePointId (dispatch (Dest_PickLocation i) s) = [])"
  by (simp add: onPickLocation_def)

text \<open>On DESTINATION with Building A and AP-201 selected, Building B is picked.\<close>

theorem pick_location_clears_witness:
  "dispatch (Dest_PickLocation ''vp-building-b'')
     (initial\<lparr>screen := DESTINATION, locationId := ''vp-building-a'', arrivePointId := ''AP-201''\<rparr>)
   \<noteq> initial\<lparr>screen := DESTINATION, locationId := ''vp-building-a'', arrivePointId := ''AP-201''\<rparr> \<and>
   locationId (dispatch (Dest_PickLocation ''vp-building-b'')
     (initial\<lparr>screen := DESTINATION, locationId := ''vp-building-a'', arrivePointId := ''AP-201''\<rparr>))
     = ''vp-building-b'' \<and>
   arrivePointId (dispatch (Dest_PickLocation ''vp-building-b'')
     (initial\<lparr>screen := DESTINATION, locationId := ''vp-building-a'', arrivePointId := ''AP-201''\<rparr>))
     = []"
proof -
  let ?s = "initial\<lparr>screen := DESTINATION, locationId := ''vp-building-a'', arrivePointId := ''AP-201''\<rparr>"
  have h: "dispatch (Dest_PickLocation ''vp-building-b'') ?s \<noteq> ?s"
  proof
    assume "dispatch (Dest_PickLocation ''vp-building-b'') ?s = ?s"
    then have "locationId (dispatch (Dest_PickLocation ''vp-building-b'') ?s) = locationId ?s"
      by simp
    then show False by (simp add: initial_def LOCATIONS_def onPickLocation_def shown_def)
  qed
  from pick_location_clears [of "''vp-building-b''" ?s] h show ?thesis by blast
qed

subsection \<open>C5: unlocking needs a delivered order\<close>

text \<open>
  C5. The ``Open Arrive Point'' button is disabled unless \<open>canUnlock\<close>: in any state
  whose order is absent or not DELIVERED the event changes nothing, in a session it
  leaves the whole state as it was, a session shows UNLOCK after the event only if its
  order is DELIVERED, and on TRACKING with a DELIVERED order the event does lead to
  UNLOCK.
\<close>

theorem unlock_needs_delivered:
  "((\<forall>ord. order s = Some ord \<longrightarrow> status ord \<noteq> ''DELIVERED'') \<longrightarrow>
      dispatch Tracking_Unlock s = s) \<and>
   ((\<forall>ord. order (run loc is) = Some ord \<longrightarrow> status ord \<noteq> ''DELIVERED'') \<longrightarrow>
      step (run loc is) Tracking_Unlock = run loc is) \<and>
   (screen (step (run loc' js) Tracking_Unlock) = UNLOCK \<longrightarrow>
      (\<exists>ord. order (run loc' js) = Some ord \<and> status ord = ''DELIVERED'')) \<and>
   (screen (run loc' js) = TRACKING \<and>
    (\<exists>ord. order (run loc' js) = Some ord \<and> status ord = ''DELIVERED'') \<longrightarrow>
      screen (step (run loc' js) Tracking_Unlock) = UNLOCK)"
proof (intro conjI impI)
  assume "\<forall>ord. order s = Some ord \<longrightarrow> status ord \<noteq> ''DELIVERED''"
  then show "dispatch Tracking_Unlock s = s"
    by (simp add: canUnlock_def split: option.splits)
next
  assume "\<forall>ord. order (run loc is) = Some ord \<longrightarrow> status ord \<noteq> ''DELIVERED''"
  then have "dispatch Tracking_Unlock (run loc is) = run loc is"
    by (simp add: canUnlock_def split: option.splits)
  with session_inv_gated show "step (run loc is) Tracking_Unlock = run loc is"
    by (rule step_settled_noop)
next
  let ?r = "run loc' js"
  assume u: "screen (step ?r Tracking_Unlock) = UNLOCK"
  show "\<exists>ord. order ?r = Some ord \<and> status ord = ''DELIVERED''"
  proof (cases "screen (dispatch Tracking_Unlock ?r) = UNLOCK")
    case True
    show ?thesis
    proof (cases "screen ?r = UNLOCK")
      case True
      with run_order_ok [of loc' js] show ?thesis
        by (auto simp add: order_ok_def split: option.splits)
    next
      case False
      with True show ?thesis
        by (auto simp add: onUnlock_def canUnlock_def split: option.splits if_splits)
    qed
  next
    case False
    with u step_screen_cases [of ?r Tracking_Unlock] show ?thesis by auto
  qed
next
  let ?r = "run loc' js"
  assume a: "screen ?r = TRACKING \<and> (\<exists>ord. order ?r = Some ord \<and> status ord = ''DELIVERED'')"
  then have d: "dispatch Tracking_Unlock ?r = onUnlock ?r"
    by (auto simp add: canUnlock_def)
  from a run_gated_screen [of loc' js] have "user ?r \<noteq> None \<and> canContinue ?r" by simp
  then have "guardrails (progression_effect ?r (onUnlock ?r)) = progression_effect ?r (onUnlock ?r)"
    by (intro guardrails_keeps) (simp_all add: canContinue_def onUnlock_def)
  with d show "screen (step ?r Tracking_Unlock) = UNLOCK"
    by (simp add: step_def effects_def onUnlock_def)
qed

text \<open>A state on TRACKING with status READY, a session two timer steps after checkout
  (PREPARING), and a session after all six timer steps (DELIVERED).\<close>

theorem unlock_needs_delivered_witness:
  "dispatch Tracking_Unlock
     (initial\<lparr>screen := TRACKING,
        order := Some \<lparr>order_id = ''VP-10042'', status = ''READY'',
                       merchantName = ''Sushi & Bowls'', eta = 28\<rparr>\<rparr>)
     = initial\<lparr>screen := TRACKING,
        order := Some \<lparr>order_id = ''VP-10042'', status = ''READY'',
                       merchantName = ''Sushi & Bowls'', eta = 28\<rparr>\<rparr> \<and>
   screen (run None [Landing_Continue, Auth_Verified ''3175550123'',
       Dest_PickLocation ''vp-building-a'', Dest_PickArrivePoint ''AP-201'', Dest_Continue,
       Merchants_Select [] ''merchant-1'', Detail_Checkout 42, Timer_Fires, Timer_Fires]) = TRACKING \<and>
   step (run None [Landing_Continue, Auth_Verified ''3175550123'',
       Dest_PickLocation ''vp-building-a'', Dest_PickArrivePoint ''AP-201'', Dest_Continue,
       Merchants_Select [] ''merchant-1'', Detail_Checkout 42, Timer_Fires, Timer_Fires]) Tracking_Unlock
     = run None [Landing_Continue, Auth_Verified ''3175550123'',
       Dest_PickLocation ''vp-building-a'', Dest_PickArrivePoint ''AP-201'', Dest_Continue,
       Merchants_Select [] ''merchant-1'', Detail_Checkout 42, Timer_Fires, Timer_Fires] \<and>
   screen (run None [Landing_Continue, Auth_Verified ''3175550123'',
       Dest_PickLocation ''vp-building-a'', Dest_PickArrivePoint ''AP-201'', Dest_Continue,
       Merchants_Select [] ''merchant-1'', Detail_Checkout 42, Timer_Fires, Timer_Fires,
       Timer_Fires, Timer_Fires, Timer_Fires, Timer_Fires]) = TRACKING \<and>
   order (run None [Landing_Continue, Auth_Verified ''3175550123'',
       Dest_PickLocation ''vp-building-a'', Dest_PickArrivePoint ''AP-201'', Dest_Continue,
       Merchants_Select [] ''merchant-1'', Detail_Checkout 42, Timer_Fires, Timer_Fires,
       Timer_Fires, Timer_Fires, Timer_Fires, Timer_Fires])
     = Some \<lparr>order_id = ''VP-10042'', status = ''DELIVERED'',
              merchantName = ''Sushi & Bowls'', eta = 28\<rparr> \<and>
   screen (step (run None [Landing_Continue, Auth_Verified ''3175550123'',
       Dest_PickLocation ''vp-building-a'', Dest_PickArrivePoint ''AP-201'', Dest_Continue,
       Merchants_Select [] ''merchant-1'', Detail_Checkout 42, Timer_Fires, Timer_Fires,
       Timer_Fires, Timer_Fires, Timer_Fires, Timer_Fires]) Tracking_Unlock) = UNLOCK"
proof -
  let ?s = "initial\<lparr>screen := TRACKING,
        order := Some \<lparr>order_id = ''VP-10042'', status = ''READY'',
                       merchantName = ''Sushi & Bowls'', eta = 28\<rparr>\<rparr>"
  let ?is = "[Landing_Continue, Auth_Verified ''3175550123'',
       Dest_PickLocation ''vp-building-a'', Dest_PickArrivePoint ''AP-201'', Dest_Continue,
       Merchants_Select [] ''merchant-1'', Detail_Checkout 42, Timer_Fires, Timer_Fires]"
  let ?js = "[Landing_Continue, Auth_Verified ''3175550123'',
       Dest_PickLocation ''vp-building-a'', Dest_PickArrivePoint ''AP-201'', Dest_Continue,
       Merchants_Select [] ''merchant-1'', Detail_Checkout 42, Timer_Fires, Timer_Fires,
       Timer_Fires, Timer_Fires, Timer_Fires, Timer_Fires]"
  have h1: "\<forall>ord. order ?s = Some ord \<longrightarrow> status ord \<noteq> ''DELIVERED''"
    by (simp add: initial_def)
  have r: "run None ?is =
      \<lparr>screen = TRACKING, user = Some \<lparr>phone = ''3175550123''\<rparr>,
       locationId = ''vp-building-a'', arrivePointId = ''AP-201'',
       selectedMerchantId = Some ''merchant-1'',
       order = Some \<lparr>order_id = ''VP-10042'', status = ''PREPARING'',
                      merchantName = ''Sushi & Bowls'', eta = 28\<rparr>,
       showHow = False, timers = [(''READY'', 2600)],
       opened = [''https://order.chownow.com/placeholders/merchant-1''],
       leaving = Some MERCHANT_DETAIL\<rparr>"
    by (simp add: run_defs)
  have h2: "\<forall>ord. order (run None ?is) = Some ord \<longrightarrow> status ord \<noteq> ''DELIVERED''"
    by (simp add: r)
  have h3: "screen (run None ?js) = TRACKING"
    by (simp add: run_defs)
  have h4: "order (run None ?js) = Some \<lparr>order_id = ''VP-10042'', status = ''DELIVERED'',
              merchantName = ''Sushi & Bowls'', eta = 28\<rparr>"
    by (simp add: run_defs)
  from unlock_needs_delivered [of ?s None ?is None ?js] h1 h2 h3 h4
  show ?thesis by (simp add: r)
qed

subsection \<open>C6: a closed merchant cannot be selected\<close>

text \<open>
  C6. A click on the button of an id that is not the id of an open merchant of
  \<open>MERCHANTS\<close> changes nothing, whatever the search box holds; this covers
  \<open>merchant-3\<close>. No session ever has \<open>merchant-3\<close> selected, and a session on
  MERCHANT_DETAIL has a selected merchant that is in \<open>MERCHANTS\<close> and open.
\<close>

theorem closed_merchant_not_selectable:
  "(\<not> (\<exists>m \<in> set MERCHANTS. m_id m = i \<and> m_open m) \<longrightarrow>
      dispatch (Merchants_Select q i) s = s \<and>
      step (run loc is) (Merchants_Select q i) = run loc is) \<and>
   dispatch (Merchants_Select q ''merchant-3'') s = s \<and>
   step (run loc is) (Merchants_Select q ''merchant-3'') = run loc is \<and>
   selectedMerchantId (run loc is) \<noteq> Some ''merchant-3'' \<and>
   (screen (run loc' js) = MERCHANT_DETAIL \<longrightarrow>
      (\<exists>m \<in> set MERCHANTS. selectedMerchant (run loc' js) = Some m \<and> m_open m))"
proof (intro conjI impI)
  assume a: "\<not> (\<exists>m \<in> set MERCHANTS. m_id m = i \<and> m_open m)"
  then show "dispatch (Merchants_Select q i) s = s" by (rule select_closed_noop)
  from a show "step (run loc is) (Merchants_Select q i) = run loc is"
    by (intro step_settled_noop session_inv_gated select_closed_noop)
next
  show "dispatch (Merchants_Select q ''merchant-3'') s = s"
    by (rule select_closed_noop [OF merchant_3_closed])
  show "step (run loc is) (Merchants_Select q ''merchant-3'') = run loc is"
    by (intro step_settled_noop session_inv_gated select_closed_noop merchant_3_closed)
next
  show "selectedMerchantId (run loc is) \<noteq> Some ''merchant-3''"
  proof
    assume a: "selectedMerchantId (run loc is) = Some ''merchant-3''"
    show False
    proof (cases "selectedMerchant (run loc is)")
      case None
      with run_merchant_ok [of loc "is"] a show False by (simp add: merchant_ok_def)
    next
      case (Some m)
      with a have "find (\<lambda>m. m_id m = ''merchant-3'') MERCHANTS = Some m"
        by (simp add: selectedMerchant_def)
      from find_key_mem [OF this] closed_merchant_3 have "\<not> m_open m" by blast
      with run_merchant_ok [of loc "is"] Some show False by (simp add: merchant_ok_def)
    qed
  qed
next
  let ?r = "run loc' js"
  assume d: "screen ?r = MERCHANT_DETAIL"
  with run_merchant_ok [of loc' js] obtain m where m: "selectedMerchant ?r = Some m" "m_open m"
    by (cases "selectedMerchant ?r") (auto simp add: merchant_ok_def)
  from m(1) obtain k where "find (\<lambda>m. m_id m = k) MERCHANTS = Some m"
    by (auto simp add: selectedMerchant_def split: option.splits)
  from find_key_mem [OF this] m show "\<exists>m \<in> set MERCHANTS. selectedMerchant ?r = Some m \<and> m_open m"
    by blast
qed

text \<open>\<open>merchant-3\<close> on the MERCHANTS screen, and a session that selected
  \<open>merchant-2\<close>.\<close>

theorem closed_merchant_not_selectable_witness:
  "\<not> (\<exists>m \<in> set MERCHANTS. m_id m = ''merchant-3'' \<and> m_open m) \<and>
   dispatch (Merchants_Select [] ''merchant-3'')
     (initial\<lparr>screen := MERCHANTS_SCREEN\<rparr>) = initial\<lparr>screen := MERCHANTS_SCREEN\<rparr> \<and>
   step (run None [Landing_Continue, Auth_Verified ''3175550123'',
       Dest_PickLocation ''vp-building-a'', Dest_PickArrivePoint ''AP-201'', Dest_Continue])
     (Merchants_Select [] ''merchant-3'')
     = run None [Landing_Continue, Auth_Verified ''3175550123'',
       Dest_PickLocation ''vp-building-a'', Dest_PickArrivePoint ''AP-201'', Dest_Continue] \<and>
   screen (run None [Landing_Continue, Auth_Verified ''3175550123'',
       Dest_PickLocation ''vp-building-a'', Dest_PickArrivePoint ''AP-201'', Dest_Continue,
       Merchants_Select [] ''merchant-2'']) = MERCHANT_DETAIL \<and>
   (\<exists>m \<in> set MERCHANTS.
      selectedMerchant (run None [Landing_Continue, Auth_Verified ''3175550123'',
       Dest_PickLocation ''vp-building-a'', Dest_PickArrivePoint ''AP-201'', Dest_Continue,
       Merchants_Select [] ''merchant-2'']) = Some m \<and> m_open m)"
proof -
  let ?is = "[Landing_Continue, Auth_Verified ''3175550123'',
       Dest_PickLocation ''vp-building-a'', Dest_PickArrivePoint ''AP-201'', Dest_Continue]"
  let ?js = "[Landing_Continue, Auth_Verified ''3175550123'',
       Dest_PickLocation ''vp-building-a'', Dest_PickArrivePoint ''AP-201'', Dest_Continue,
       Merchants_Select [] ''merchant-2'']"
  have h1: "\<not> (\<exists>m \<in> set MERCHANTS. m_id m = ''merchant-3'' \<and> m_open m)"
    by (simp add: MERCHANTS_def)
  have h2: "screen (run None ?js) = MERCHANT_DETAIL"
    by (simp add: run_defs)
  from closed_merchant_not_selectable
         [of "''merchant-3''" "[]" "initial\<lparr>screen := MERCHANTS_SCREEN\<rparr>" None ?is None ?js] h1 h2
  show ?thesis by blast
qed

subsection \<open>C7: the arrive point belongs to the selected location\<close>

text \<open>
  C7. In every session, a non-empty \<open>arrivePointId\<close> is the id of an arrive point of the
  location that \<open>locationId\<close> resolves to. The two mechanisms: picking a location
  empties \<open>arrivePointId\<close>, and an arrive point can be picked only from the list of
  the resolved location.
\<close>

theorem arrive_point_belongs_to_location:
  "(arrivePointId (run loc is) \<noteq> [] \<longrightarrow>
      (\<exists>l ap. location_of (run loc is) = Some l \<and> loc_id l = locationId (run loc is) \<and>
               l \<in> set LOCATIONS \<and> ap \<in> set (arrivePoints l) \<and>
               ap_id ap = arrivePointId (run loc is))) \<and>
   arrivePointId (onPickLocation i s) = [] \<and>
   (dispatch (Dest_PickArrivePoint k) s \<noteq> s \<longrightarrow>
      (\<exists>l. location_of s = Some l \<and> k \<in> set (map ap_id (arrivePoints l)) \<and>
           dispatch (Dest_PickArrivePoint k) s = s\<lparr>arrivePointId := k\<rparr>))"
proof (intro conjI impI)
  let ?r = "run loc is"
  assume "arrivePointId ?r \<noteq> []"
  with run_destination_ok [of loc "is"] obtain ap where ap: "arrivePoint_of ?r = Some ap"
    by (auto simp add: destination_ok_def)
  then obtain l where l: "location_of ?r = Some l"
    and f: "find (\<lambda>ap. ap_id ap = arrivePointId ?r) (arrivePoints l) = Some ap"
    by (auto simp add: arrivePoint_of_def split: option.splits)
  from l have "find (\<lambda>l. loc_id l = locationId ?r) LOCATIONS = Some l"
    by (simp add: location_of_def)
  from find_key_mem [OF this] find_key_mem [OF f] l
  show "\<exists>l ap. location_of ?r = Some l \<and> loc_id l = locationId ?r \<and>
               l \<in> set LOCATIONS \<and> ap \<in> set (arrivePoints l) \<and> ap_id ap = arrivePointId ?r"
    by blast
next
  show "arrivePointId (onPickLocation i s) = []" by (simp add: onPickLocation_def)
next
  assume "dispatch (Dest_PickArrivePoint k) s \<noteq> s"
  then show "\<exists>l. location_of s = Some l \<and> k \<in> set (map ap_id (arrivePoints l)) \<and>
           dispatch (Dest_PickArrivePoint k) s = s\<lparr>arrivePointId := k\<rparr>"
    by (auto simp add: onPickArrivePoint_def split: if_splits option.splits)
qed

text \<open>A session opened with the deep link of Building B that picks AP-301, and a state
  on DESTINATION at Launch Fishers where AP-101 is picked.\<close>

theorem arrive_point_belongs_to_location_witness:
  "arrivePointId (run (Some ''vp-building-b'') [Landing_Continue, Auth_Verified ''3175550123'',
       Dest_PickArrivePoint ''AP-301'']) = ''AP-301'' \<and>
   (\<exists>l ap. location_of (run (Some ''vp-building-b'') [Landing_Continue,
                Auth_Verified ''3175550123'', Dest_PickArrivePoint ''AP-301'']) = Some l \<and>
      loc_id l = ''vp-building-b'' \<and> l \<in> set LOCATIONS \<and> ap \<in> set (arrivePoints l) \<and>
      ap_id ap = ''AP-301'') \<and>
   dispatch (Dest_PickArrivePoint ''AP-101'')
      (initial\<lparr>screen := DESTINATION, locationId := ''vp-launch-fishers''\<rparr>)
     = initial\<lparr>screen := DESTINATION, locationId := ''vp-launch-fishers'',
               arrivePointId := ''AP-101''\<rparr>"
proof -
  let ?is = "[Landing_Continue, Auth_Verified ''3175550123'', Dest_PickArrivePoint ''AP-301'']"
  let ?s = "initial\<lparr>screen := DESTINATION, locationId := ''vp-launch-fishers''\<rparr>"
  have r: "arrivePointId (run (Some ''vp-building-b'') ?is) = ''AP-301''"
          "locationId (run (Some ''vp-building-b'') ?is) = ''vp-building-b''"
    by (simp_all add: run_defs)
  have h2: "dispatch (Dest_PickArrivePoint ''AP-101'') ?s \<noteq> ?s"
  proof
    assume "dispatch (Dest_PickArrivePoint ''AP-101'') ?s = ?s"
    then have "arrivePointId (dispatch (Dest_PickArrivePoint ''AP-101'') ?s) = arrivePointId ?s"
      by simp
    then show False
      by (simp add: initial_def location_of_def LOCATIONS_def onPickArrivePoint_def shown_def)
  qed
  from arrive_point_belongs_to_location
         [of "Some ''vp-building-b''" ?is "''vp-building-a''" ?s "''AP-101''"] r h2
  show ?thesis by (auto simp del: dispatch.simps)
qed

subsection \<open>C8: checkout creates a PLACED order and shows TRACKING\<close>

text \<open>
  C8. On MERCHANT_DETAIL with selected merchant \<open>m\<close>, checkout stores a new order with
  status PLACED, the name and the ETA of \<open>m\<close>, and the identifier \<open>VP-\<close> followed by
  the random draw plus 10000 in decimal; it opens the merchant's URL and sets the screen
  to TRACKING. In a session the screen is still TRACKING after the effects have run. The
  number part of the identifier consists of digits and reads back as the draw plus
  10000, so different draws give different identifiers; for a draw below 90000 it has
  five digits, and every number from 10000 to 99999 is the identifier of some draw below
  90000.
\<close>

theorem checkout_creates_order:
  "(screen s = MERCHANT_DETAIL \<and> selectedMerchant s = Some m \<longrightarrow>
      dispatch (Detail_Checkout r) s =
        s\<lparr>opened := opened s @ [chownowUrl m],
          order := Some \<lparr>order_id = ''VP-'' @ string_of_nat (r + 10000), status = ''PLACED'',
                          merchantName = m_name m, eta = etaMins m\<rparr>,
          screen := TRACKING\<rparr>) \<and>
   (screen (run loc is) = MERCHANT_DETAIL \<longrightarrow>
      (\<exists>m' \<in> set MERCHANTS. selectedMerchant (run loc is) = Some m' \<and>
         order (step (run loc is) (Detail_Checkout r)) =
           Some \<lparr>order_id = ''VP-'' @ string_of_nat (r + 10000), status = ''PLACED'',
                  merchantName = m_name m', eta = etaMins m'\<rparr> \<and>
         screen (step (run loc is) (Detail_Checkout r)) = TRACKING)) \<and>
   (r < 90000 \<longrightarrow>
      length (string_of_nat (r + 10000)) = 5 \<and>
      (\<forall>c \<in> set (string_of_nat (r + 10000)). isDigit c)) \<and>
   decimal_value (string_of_nat (r + 10000)) = r + 10000 \<and>
   (''VP-'' @ string_of_nat (r + 10000) = ''VP-'' @ string_of_nat (r' + 10000) \<longrightarrow> r = r') \<and>
   (10000 \<le> n \<and> n < 100000 \<longrightarrow>
      (\<exists>k. k < 90000 \<and> ''VP-'' @ string_of_nat (k + 10000) = ''VP-'' @ string_of_nat n))"
proof (intro conjI impI)
  assume "screen s = MERCHANT_DETAIL \<and> selectedMerchant s = Some m"
  then show "dispatch (Detail_Checkout r) s =
        s\<lparr>opened := opened s @ [chownowUrl m],
          order := Some \<lparr>order_id = ''VP-'' @ string_of_nat (r + 10000), status = ''PLACED'',
                          merchantName = m_name m, eta = etaMins m\<rparr>,
          screen := TRACKING\<rparr>"
    by (simp add: onCheckout_def)
next
  let ?r = "run loc is"
  assume d: "screen ?r = MERCHANT_DETAIL"
  with run_merchant_ok [of loc "is"] obtain m' where m: "selectedMerchant ?r = Some m'"
    by (cases "selectedMerchant ?r") (auto simp add: merchant_ok_def)
  then obtain k where "find (\<lambda>m. m_id m = k) MERCHANTS = Some m'"
    by (auto simp add: selectedMerchant_def split: option.splits)
  from find_key_mem [OF this] have mem: "m' \<in> set MERCHANTS" by simp
  from d m have e: "dispatch (Detail_Checkout r) ?r = onCheckout r m' ?r" by simp
  from d run_gated_screen [of loc "is"] have "user ?r \<noteq> None \<and> canContinue ?r" by simp
  with e have "screen (step ?r (Detail_Checkout r)) = TRACKING"
    by (subst step_screen_kept) (simp_all add: onCheckout_def canContinue_def)
  moreover from e have "order (step ?r (Detail_Checkout r)) =
      Some \<lparr>order_id = ''VP-'' @ string_of_nat (r + 10000), status = ''PLACED'',
             merchantName = m_name m', eta = etaMins m'\<rparr>"
    by (simp add: step_fields onCheckout_def)
  ultimately show "\<exists>m' \<in> set MERCHANTS. selectedMerchant ?r = Some m' \<and>
         order (step ?r (Detail_Checkout r)) =
           Some \<lparr>order_id = ''VP-'' @ string_of_nat (r + 10000), status = ''PLACED'',
                  merchantName = m_name m', eta = etaMins m'\<rparr> \<and>
         screen (step ?r (Detail_Checkout r)) = TRACKING"
    using m mem by blast
next
  assume "r < 90000"
  then show "length (string_of_nat (r + 10000)) = 5" by (intro length_string_of_nat_5) simp_all
  show "\<forall>c \<in> set (string_of_nat (r + 10000)). isDigit c" by (rule string_of_nat_digits)
next
  show "decimal_value (string_of_nat (r + 10000)) = r + 10000"
    by (rule decimal_value_string_of_nat)
next
  assume "''VP-'' @ string_of_nat (r + 10000) = ''VP-'' @ string_of_nat (r' + 10000)"
  then have "string_of_nat (r + 10000) = string_of_nat (r' + 10000)" by simp
  from string_of_nat_inject [OF this] show "r = r'" by simp
next
  assume "10000 \<le> n \<and> n < 100000"
  then have k: "n - 10000 < 90000" and e: "n - 10000 + 10000 = n" by arith+
  have "''VP-'' @ string_of_nat (n - 10000 + 10000) = ''VP-'' @ string_of_nat n"
    by (simp only: e)
  with k show "\<exists>k. k < 90000 \<and> ''VP-'' @ string_of_nat (k + 10000) = ''VP-'' @ string_of_nat n"
    by blast
qed

text \<open>A session that selected \<open>merchant-2\<close>, with the draw 42; and the number 99999.\<close>

theorem checkout_creates_order_witness:
  "screen (run None [Landing_Continue, Auth_Verified ''3175550123'',
       Dest_PickLocation ''vp-building-a'', Dest_PickArrivePoint ''AP-201'', Dest_Continue,
       Merchants_Select [] ''merchant-2'']) = MERCHANT_DETAIL \<and>
   (42::nat) < 90000 \<and>
   order (step (run None [Landing_Continue, Auth_Verified ''3175550123'',
       Dest_PickLocation ''vp-building-a'', Dest_PickArrivePoint ''AP-201'', Dest_Continue,
       Merchants_Select [] ''merchant-2'']) (Detail_Checkout 42))
     = Some \<lparr>order_id = ''VP-10042'', status = ''PLACED'',
              merchantName = ''Garlic Noodle House'', eta = 32\<rparr> \<and>
   screen (step (run None [Landing_Continue, Auth_Verified ''3175550123'',
       Dest_PickLocation ''vp-building-a'', Dest_PickArrivePoint ''AP-201'', Dest_Continue,
       Merchants_Select [] ''merchant-2'']) (Detail_Checkout 42)) = TRACKING \<and>
   length (string_of_nat (42 + 10000)) = 5 \<and>
   decimal_value (string_of_nat (42 + 10000)) = 10042 \<and>
   ''VP-'' @ string_of_nat (42 + 10000) = ''VP-'' @ string_of_nat 10042 \<and>
   (10000::nat) \<le> 99999 \<and> (99999::nat) < 100000 \<and>
   (\<exists>k. k < 90000 \<and> ''VP-'' @ string_of_nat (k + 10000) = ''VP-'' @ string_of_nat 99999)"
proof -
  let ?is = "[Landing_Continue, Auth_Verified ''3175550123'',
       Dest_PickLocation ''vp-building-a'', Dest_PickArrivePoint ''AP-201'', Dest_Continue,
       Merchants_Select [] ''merchant-2'']"
  let ?m = "\<lparr>m_id = ''merchant-2'', m_name = ''Garlic Noodle House'', m_category = ''Noodles'',
       etaMins = 32, m_open = True,
       chownowUrl = ''https://order.chownow.com/placeholders/merchant-2'',
       m_tags = [''Savory'', ''Medium spice'']\<rparr>"
  have h1: "screen (run None ?is) = MERCHANT_DETAIL" by (simp add: run_defs)
  have h2: "selectedMerchant (run None ?is) = Some ?m" by (simp add: run_defs)
  have h3: "(42::nat) < 90000" by simp
  have h4a: "(10000::nat) \<le> 99999" and h4b: "(99999::nat) < 100000" by simp_all
  then have h4: "(10000::nat) \<le> 99999 \<and> (99999::nat) < 100000" by simp
  have h5: "''VP-'' @ string_of_nat (42 + 10000) = ''VP-'' @ string_of_nat (42 + 10000)" by simp
  have v: "''VP-'' @ string_of_nat (42 + 10000) = ''VP-10042''" by (simp add: run_defs)
  note inst = checkout_creates_order [of "run None ?is" ?m 42 None ?is 42 99999]
  note second = inst [THEN conjunct2, THEN conjunct1]
  note third = inst [THEN conjunct2, THEN conjunct2, THEN conjunct1]
  note fourth = inst [THEN conjunct2, THEN conjunct2, THEN conjunct2, THEN conjunct1]
  note sixth = inst [THEN conjunct2, THEN conjunct2, THEN conjunct2, THEN conjunct2,
      THEN conjunct2]
  from second [rule_format, OF h1] obtain m'
    where m': "selectedMerchant (run None ?is) = Some m'"
    "order (step (run None ?is) (Detail_Checkout 42)) =
       Some \<lparr>order_id = ''VP-'' @ string_of_nat (42 + 10000), status = ''PLACED'',
              merchantName = m_name m', eta = etaMins m'\<rparr>"
    "screen (step (run None ?is) (Detail_Checkout 42)) = TRACKING"
    by blast
  from m'(1) h2 have "m' = ?m" by simp
  with m'(2) v have c1: "order (step (run None ?is) (Detail_Checkout 42)) =
      Some \<lparr>order_id = ''VP-10042'', status = ''PLACED'',
             merchantName = ''Garlic Noodle House'', eta = 32\<rparr>"
    by (simp del: dispatch.simps)
  from third [rule_format, OF h3] have c2: "length (string_of_nat (42 + 10000)) = 5" ..
  from fourth have c3: "decimal_value (string_of_nat (42 + 10000)) = 10042" by simp
  from sixth [rule_format, OF h4] have c4: "\<exists>k. k < 90000 \<and>
      ''VP-'' @ string_of_nat (k + 10000) = ''VP-'' @ string_of_nat 99999" .
  have c5: "''VP-'' @ string_of_nat (42 + 10000) = ''VP-'' @ string_of_nat 10042" by simp
  show ?thesis by (intro conjI) (rule h1 h3 c1 m'(3) c2 c3 c5 h4a h4b c4)+
qed

subsection \<open>C9: the order of a session\<close>

text \<open>
  C9, as stated, says that no sequence of operations of one session reaches checkout a
  second time. ``Back to merchants'' on TRACKING (and ``Done'' on UNLOCK) leads back to
  the merchant list, from where a second checkout overwrites the order.
\<close>

theorem order_replaced_counterexample:
  "order (run None [Landing_Continue, Auth_Verified ''3175550123'',
       Dest_PickLocation ''vp-building-a'', Dest_PickArrivePoint ''AP-201'', Dest_Continue,
       Merchants_Select [] ''merchant-1'', Detail_Checkout 0])
     = Some \<lparr>order_id = ''VP-10000'', status = ''PLACED'',
              merchantName = ''Sushi & Bowls'', eta = 28\<rparr> \<and>
   order (run None [Landing_Continue, Auth_Verified ''3175550123'',
       Dest_PickLocation ''vp-building-a'', Dest_PickArrivePoint ''AP-201'', Dest_Continue,
       Merchants_Select [] ''merchant-1'', Detail_Checkout 0,
       Tracking_Back, Merchants_Select [] ''merchant-2'', Detail_Checkout 1])
     = Some \<lparr>order_id = ''VP-10001'', status = ''PLACED'',
              merchantName = ''Garlic Noodle House'', eta = 32\<rparr>"
  by (simp add: run_defs)

text \<open>
  C9, amended. Once a session has an order it always has one: no event unsets it. Every
  event other than a checkout keeps the identifier, the merchant name and the ETA of the
  order. A checkout replaces the order by a new one, and a session that has an order
  reaches checkout again: from TRACKING by ``Back to merchants'', and from UNLOCK by
  ``Done'', each followed by the selection of any open merchant and checkout; and on
  MERCHANT_DETAIL by a second click on the checkout button, which the view still takes
  while it is leaving.
\<close>

theorem order_never_deleted:
  "(order (run loc is) \<noteq> None \<longrightarrow> order (run loc (is @ js)) \<noteq> None) \<and>
   ((\<forall>r. k \<noteq> Detail_Checkout r) \<longrightarrow>
      map_option (\<lambda>ord. (order_id ord, merchantName ord, eta ord)) (order (step (run loc' ks) k)) =
      map_option (\<lambda>ord. (order_id ord, merchantName ord, eta ord)) (order (run loc' ks))) \<and>
   (screen (run la as) = TRACKING \<and> m \<in> set MERCHANTS \<and> m_open m \<longrightarrow>
      order (run la as) \<noteq> None \<and>
      order (run la (as @ [Tracking_Back, Merchants_Select [] (m_id m), Detail_Checkout r])) =
        Some \<lparr>order_id = ''VP-'' @ string_of_nat (r + 10000), status = ''PLACED'',
               merchantName = m_name m, eta = etaMins m\<rparr>) \<and>
   (screen (run lb bs) = UNLOCK \<and> m' \<in> set MERCHANTS \<and> m_open m' \<longrightarrow>
      order (run lb bs) \<noteq> None \<and>
      order (run lb (bs @ [Unlock_Done, Merchants_Select [] (m_id m'), Detail_Checkout r])) =
        Some \<lparr>order_id = ''VP-'' @ string_of_nat (r + 10000), status = ''PLACED'',
               merchantName = m_name m', eta = etaMins m'\<rparr>) \<and>
   (screen (run lc cs) = MERCHANT_DETAIL \<longrightarrow>
      (\<exists>n \<in> set MERCHANTS. selectedMerchant (run lc cs) = Some n \<and>
         order (step (run lc cs) (Detail_Checkout r)) =
           Some \<lparr>order_id = ''VP-'' @ string_of_nat (r + 10000), status = ''PLACED'',
                  merchantName = m_name n, eta = etaMins n\<rparr> \<and>
         order (run lc (cs @ [Detail_Checkout r, Detail_Checkout r'])) =
           Some \<lparr>order_id = ''VP-'' @ string_of_nat (r' + 10000), status = ''PLACED'',
                  merchantName = m_name n, eta = etaMins n\<rparr>))"
proof (intro conjI impI)
  assume "order (run loc is) \<noteq> None"
  then have "order (foldl step (run loc is) js) \<noteq> None" by (rule foldl_step_order_kept)
  then show "order (run loc (is @ js)) \<noteq> None" by (simp add: run_append)
next
  assume "\<forall>r. k \<noteq> Detail_Checkout r"
  from dispatch_order_identity [OF this, of "run loc' ks"]
  show "map_option (\<lambda>ord. (order_id ord, merchantName ord, eta ord)) (order (step (run loc' ks) k)) =
      map_option (\<lambda>ord. (order_id ord, merchantName ord, eta ord)) (order (run loc' ks))"
    by (simp only: step_fields)
next
  assume a: "screen (run la as) = TRACKING \<and> m \<in> set MERCHANTS \<and> m_open m"
  then have b: "screen (step (run la as) Tracking_Back) = MERCHANTS_SCREEN \<and>
         user (step (run la as) Tracking_Back) \<noteq> None \<and>
         canContinue (step (run la as) Tracking_Back) \<and> order (run la as) \<noteq> None"
    by (intro back_to_merchants) simp
  then show "order (run la as) \<noteq> None" by simp
  from a b show "order (run la (as @ [Tracking_Back, Merchants_Select [] (m_id m), Detail_Checkout r])) =
        Some \<lparr>order_id = ''VP-'' @ string_of_nat (r + 10000), status = ''PLACED'',
               merchantName = m_name m, eta = etaMins m\<rparr>"
    by (simp only: run_three) (intro select_then_checkout, simp_all)
next
  assume a: "screen (run lb bs) = UNLOCK \<and> m' \<in> set MERCHANTS \<and> m_open m'"
  then have b: "screen (step (run lb bs) Unlock_Done) = MERCHANTS_SCREEN \<and>
         user (step (run lb bs) Unlock_Done) \<noteq> None \<and>
         canContinue (step (run lb bs) Unlock_Done) \<and> order (run lb bs) \<noteq> None"
    by (intro done_to_merchants) simp
  then show "order (run lb bs) \<noteq> None" by simp
  from a b show "order (run lb (bs @ [Unlock_Done, Merchants_Select [] (m_id m'), Detail_Checkout r])) =
        Some \<lparr>order_id = ''VP-'' @ string_of_nat (r + 10000), status = ''PLACED'',
               merchantName = m_name m', eta = etaMins m'\<rparr>"
    by (simp only: run_three) (intro select_then_checkout, simp_all)
next
  assume "screen (run lc cs) = MERCHANT_DETAIL"
  then show "\<exists>n \<in> set MERCHANTS. selectedMerchant (run lc cs) = Some n \<and>
         order (step (run lc cs) (Detail_Checkout r)) =
           Some \<lparr>order_id = ''VP-'' @ string_of_nat (r + 10000), status = ''PLACED'',
                  merchantName = m_name n, eta = etaMins n\<rparr> \<and>
         order (run lc (cs @ [Detail_Checkout r, Detail_Checkout r'])) =
           Some \<lparr>order_id = ''VP-'' @ string_of_nat (r' + 10000), status = ''PLACED'',
                  merchantName = m_name n, eta = etaMins n\<rparr>"
    by (rule checkout_twice)
qed

text \<open>The session right after a checkout (on TRACKING), the same session after the six
  timer steps and the unlock (on UNLOCK), and the session that has just selected
  \<open>merchant-1\<close>.\<close>

theorem order_never_deleted_witness:
  "order (run None [Landing_Continue, Auth_Verified ''3175550123'',
       Dest_PickLocation ''vp-building-a'', Dest_PickArrivePoint ''AP-201'', Dest_Continue,
       Merchants_Select [] ''merchant-1'', Detail_Checkout 0]) \<noteq> None \<and>
   order (run None ([Landing_Continue, Auth_Verified ''3175550123'',
       Dest_PickLocation ''vp-building-a'', Dest_PickArrivePoint ''AP-201'', Dest_Continue,
       Merchants_Select [] ''merchant-1'', Detail_Checkout 0] @
       [Timer_Fires, Tracking_Back, Merchants_Select [] ''merchant-2''])) \<noteq> None \<and>
   map_option (\<lambda>ord. (order_id ord, merchantName ord, eta ord))
     (order (step (run None [Landing_Continue, Auth_Verified ''3175550123'',
       Dest_PickLocation ''vp-building-a'', Dest_PickArrivePoint ''AP-201'', Dest_Continue,
       Merchants_Select [] ''merchant-1'', Detail_Checkout 0]) Timer_Fires))
     = Some (''VP-10000'', ''Sushi & Bowls'', 28) \<and>
   screen (run None [Landing_Continue, Auth_Verified ''3175550123'',
       Dest_PickLocation ''vp-building-a'', Dest_PickArrivePoint ''AP-201'', Dest_Continue,
       Merchants_Select [] ''merchant-1'', Detail_Checkout 0]) = TRACKING \<and>
   order (run None ([Landing_Continue, Auth_Verified ''3175550123'',
       Dest_PickLocation ''vp-building-a'', Dest_PickArrivePoint ''AP-201'', Dest_Continue,
       Merchants_Select [] ''merchant-1'', Detail_Checkout 0] @
       [Tracking_Back, Merchants_Select [] ''merchant-2'', Detail_Checkout 7]))
     = Some \<lparr>order_id = ''VP-10007'', status = ''PLACED'',
              merchantName = ''Garlic Noodle House'', eta = 32\<rparr> \<and>
   screen (run None [Landing_Continue, Auth_Verified ''3175550123'',
       Dest_PickLocation ''vp-building-a'', Dest_PickArrivePoint ''AP-201'', Dest_Continue,
       Merchants_Select [] ''merchant-1'', Detail_Checkout 0, Timer_Fires, Timer_Fires,
       Timer_Fires, Timer_Fires, Timer_Fires, Timer_Fires, Tracking_Unlock]) = UNLOCK \<and>
   order (run None ([Landing_Continue, Auth_Verified ''3175550123'',
       Dest_PickLocation ''vp-building-a'', Dest_PickArrivePoint ''AP-201'', Dest_Continue,
       Merchants_Select [] ''merchant-1'', Detail_Checkout 0, Timer_Fires, Timer_Fires,
       Timer_Fires, Timer_Fires, Timer_Fires, Timer_Fires, Tracking_Unlock] @
       [Unlock_Done, Merchants_Select [] ''merchant-2'', Detail_Checkout 7]))
     = Some \<lparr>order_id = ''VP-10007'', status = ''PLACED'',
              merchantName = ''Garlic Noodle House'', eta = 32\<rparr> \<and>
   screen (run None [Landing_Continue, Auth_Verified ''3175550123'',
       Dest_PickLocation ''vp-building-a'', Dest_PickArrivePoint ''AP-201'', Dest_Continue,
       Merchants_Select [] ''merchant-1'']) = MERCHANT_DETAIL \<and>
   order (run None ([Landing_Continue, Auth_Verified ''3175550123'',
       Dest_PickLocation ''vp-building-a'', Dest_PickArrivePoint ''AP-201'', Dest_Continue,
       Merchants_Select [] ''merchant-1''] @ [Detail_Checkout 7, Detail_Checkout 8]))
     = Some \<lparr>order_id = ''VP-10008'', status = ''PLACED'',
              merchantName = ''Sushi & Bowls'', eta = 28\<rparr>"
proof -
  let ?ds = "[Landing_Continue, Auth_Verified ''3175550123'',
       Dest_PickLocation ''vp-building-a'', Dest_PickArrivePoint ''AP-201'', Dest_Continue,
       Merchants_Select [] ''merchant-1'']"
  let ?is = "[Landing_Continue, Auth_Verified ''3175550123'',
       Dest_PickLocation ''vp-building-a'', Dest_PickArrivePoint ''AP-201'', Dest_Continue,
       Merchants_Select [] ''merchant-1'', Detail_Checkout 0]"
  let ?us = "[Landing_Continue, Auth_Verified ''3175550123'',
       Dest_PickLocation ''vp-building-a'', Dest_PickArrivePoint ''AP-201'', Dest_Continue,
       Merchants_Select [] ''merchant-1'', Detail_Checkout 0, Timer_Fires, Timer_Fires,
       Timer_Fires, Timer_Fires, Timer_Fires, Timer_Fires, Tracking_Unlock]"
  let ?m1 = "\<lparr>m_id = ''merchant-1'', m_name = ''Sushi & Bowls'', m_category = ''Asian'',
       etaMins = 28, m_open = True,
       chownowUrl = ''https://order.chownow.com/placeholders/merchant-1'',
       m_tags = [''Fresh'', ''Light'', ''Popular'']\<rparr>"
  let ?m2 = "\<lparr>m_id = ''merchant-2'', m_name = ''Garlic Noodle House'', m_category = ''Noodles'',
       etaMins = 32, m_open = True,
       chownowUrl = ''https://order.chownow.com/placeholders/merchant-2'',
       m_tags = [''Savory'', ''Medium spice'']\<rparr>"
  have o: "order (run None ?is) = Some \<lparr>order_id = ''VP-10000'', status = ''PLACED'',
              merchantName = ''Sushi & Bowls'', eta = 28\<rparr>"
    by (simp add: run_defs)
  then have h1: "order (run None ?is) \<noteq> None" by simp
  have h2: "\<forall>r. Timer_Fires \<noteq> Detail_Checkout r" by simp
  have h3: "screen (run None ?is) = TRACKING" by (simp add: run_defs)
  have h4: "?m2 \<in> set MERCHANTS" "m_open ?m2" by (simp_all add: MERCHANTS_def)
  have h5: "screen (run None ?us) = UNLOCK" by (simp add: run_defs)
  have h6: "screen (run None ?ds) = MERCHANT_DETAIL" by (simp add: run_defs)
  have h7: "selectedMerchant (run None ?ds) = Some ?m1" by (simp add: run_defs)
  have v: "''VP-'' @ string_of_nat (7 + 10000) = ''VP-10007''"
    "''VP-'' @ string_of_nat (8 + 10000) = ''VP-10008''"
    by (simp_all add: run_defs)
  note inst = order_never_deleted [of None ?is
      "[Timer_Fires, Tracking_Back, Merchants_Select [] ''merchant-2'']" Timer_Fires None ?is
      None ?is ?m2 7 None ?us ?m2 None ?ds 8]
  from inst h1 have c1: "order (run None (?is @
      [Timer_Fires, Tracking_Back, Merchants_Select [] ''merchant-2''])) \<noteq> None"
    by blast
  from inst h2 o have c2: "map_option (\<lambda>ord. (order_id ord, merchantName ord, eta ord))
     (order (step (run None ?is) Timer_Fires)) = Some (''VP-10000'', ''Sushi & Bowls'', 28)"
    by (simp del: dispatch.simps append.simps)
  from inst h3 h4 have "order (run None (?is @
        [Tracking_Back, Merchants_Select [] (m_id ?m2), Detail_Checkout 7])) =
      Some \<lparr>order_id = ''VP-'' @ string_of_nat (7 + 10000), status = ''PLACED'',
             merchantName = m_name ?m2, eta = etaMins ?m2\<rparr>"
    by blast
  with v have c3: "order (run None (?is @
        [Tracking_Back, Merchants_Select [] ''merchant-2'', Detail_Checkout 7])) =
      Some \<lparr>order_id = ''VP-10007'', status = ''PLACED'',
             merchantName = ''Garlic Noodle House'', eta = 32\<rparr>"
    by (simp del: append.simps)
  from inst h5 h4 have "order (run None (?us @
        [Unlock_Done, Merchants_Select [] (m_id ?m2), Detail_Checkout 7])) =
      Some \<lparr>order_id = ''VP-'' @ string_of_nat (7 + 10000), status = ''PLACED'',
             merchantName = m_name ?m2, eta = etaMins ?m2\<rparr>"
    by blast
  with v have c4: "order (run None (?us @
        [Unlock_Done, Merchants_Select [] ''merchant-2'', Detail_Checkout 7])) =
      Some \<lparr>order_id = ''VP-10007'', status = ''PLACED'',
             merchantName = ''Garlic Noodle House'', eta = 32\<rparr>"
    by (simp del: append.simps)
  from inst h6 obtain n where n: "selectedMerchant (run None ?ds) = Some n"
    "order (run None (?ds @ [Detail_Checkout 7, Detail_Checkout 8])) =
       Some \<lparr>order_id = ''VP-'' @ string_of_nat (8 + 10000), status = ''PLACED'',
              merchantName = m_name n, eta = etaMins n\<rparr>"
    by blast
  from n(1) h7 have "n = ?m1" by simp
  with n(2) v have c5: "order (run None (?ds @ [Detail_Checkout 7, Detail_Checkout 8])) =
       Some \<lparr>order_id = ''VP-10008'', status = ''PLACED'',
              merchantName = ''Sushi & Bowls'', eta = 28\<rparr>"
    by (simp del: append.simps)
  show ?thesis by (intro conjI) (rule h1 c1 c2 h3 c3 h5 c4 h6 c5)+
qed

subsection \<open>C10: a deep link with an unknown location\<close>

text \<open>
  C10. The deep-link value becomes \<open>locationId\<close> as it is. When it is the id of no
  element of \<open>LOCATIONS\<close>, the location is unresolved at mount, and in every session
  that still carries this id the location is unresolved, \<open>arrivePointId\<close> is empty and
  the screen is LANDING, AUTH or DESTINATION; a session on any later screen has replaced
  the id by one that resolves, with an arrive point of that location. The guard sends a
  signed-in state that carries the id with no arrive point, on any later screen, to
  DESTINATION.
\<close>

theorem unknown_deep_link:
  "locationId (mount (Some l)) = l \<and>
   (l \<notin> set (map loc_id LOCATIONS) \<longrightarrow>
      location_of (mount (Some l)) = None \<and>
      (locationId (run (Some l) is) = l \<longrightarrow>
         location_of (run (Some l) is) = None \<and> arrivePointId (run (Some l) is) = [] \<and>
         (screen (run (Some l) is) = LANDING \<or> screen (run (Some l) is) = AUTH \<or>
          screen (run (Some l) is) = DESTINATION)) \<and>
      (screen (run (Some l) js) \<noteq> LANDING \<and> screen (run (Some l) js) \<noteq> AUTH \<and>
       screen (run (Some l) js) \<noteq> DESTINATION \<longrightarrow>
         locationId (run (Some l) js) \<noteq> l \<and> location_of (run (Some l) js) \<noteq> None \<and>
         arrivePoint_of (run (Some l) js) \<noteq> None) \<and>
      (locationId s = l \<and> arrivePointId s = [] \<and> user s \<noteq> None \<and>
       screen s \<noteq> LANDING \<and> screen s \<noteq> AUTH \<and> screen s \<noteq> DESTINATION \<longrightarrow>
         screen (guardrails s) = DESTINATION))"
proof (intro conjI impI)
  show "locationId (mount (Some l)) = l"
    by (simp add: mount_def effects_def deep_link_def initial_def)
next
  assume u: "l \<notin> set (map loc_id LOCATIONS)"
  have unresolved: "location_of t = None" if "locationId t = l" for t
    using that u by (simp add: location_of_def find_key_None del: set_map)
  show "location_of (mount (Some l)) = None"
    by (rule unresolved) (simp add: mount_def effects_def deep_link_def initial_def)
  {
    let ?r = "run (Some l) is"
    assume "locationId ?r = l"
    then show n: "location_of ?r = None" by (rule unresolved)
    then have "arrivePoint_of ?r = None" by (simp add: arrivePoint_of_def)
    with run_destination_ok [of "Some l" "is"] show e: "arrivePointId ?r = []"
      by (simp add: destination_ok_def)
    then have "\<not> canContinue ?r" by (simp add: canContinue_def)
    with session_inv_gated [of "Some l" "is"]
    show "screen ?r = LANDING \<or> screen ?r = AUTH \<or> screen ?r = DESTINATION"
      by (auto simp add: guardrails_fixed_iff)
  }
  {
    let ?r = "run (Some l) js"
    assume "screen ?r \<noteq> LANDING \<and> screen ?r \<noteq> AUTH \<and> screen ?r \<noteq> DESTINATION"
    with run_gated_screen [of "Some l" js] have "arrivePointId ?r \<noteq> []"
      by (simp add: canContinue_def)
    with run_destination_ok [of "Some l" js] show a: "arrivePoint_of ?r \<noteq> None"
      by (simp add: destination_ok_def)
    then show b: "location_of ?r \<noteq> None"
      by (auto simp add: arrivePoint_of_def split: option.splits)
    with unresolved [of ?r] show "locationId ?r \<noteq> l" by blast
  }
  {
    assume "locationId s = l \<and> arrivePointId s = [] \<and> user s \<noteq> None \<and>
       screen s \<noteq> LANDING \<and> screen s \<noteq> AUTH \<and> screen s \<noteq> DESTINATION"
    then show "screen (guardrails s) = DESTINATION"
      by (intro guardrails_forces_destination) (simp_all add: canContinue_def)
  }
qed

text \<open>The id \<open>vp-unknown\<close>: a session that tries an arrive point and ``Continue''
  without picking a location, one that picks Building A and AP-201, and a signed-in
  state placed on MERCHANTS.\<close>

theorem unknown_deep_link_witness:
  "''vp-unknown'' \<notin> set (map loc_id LOCATIONS) \<and>
   locationId (mount (Some ''vp-unknown'')) = ''vp-unknown'' \<and>
   location_of (mount (Some ''vp-unknown'')) = None \<and>
   locationId (run (Some ''vp-unknown'') [Landing_Continue, Auth_Verified ''3175550123'',
       Dest_PickArrivePoint ''AP-201'', Dest_Continue]) = ''vp-unknown'' \<and>
   arrivePointId (run (Some ''vp-unknown'') [Landing_Continue, Auth_Verified ''3175550123'',
       Dest_PickArrivePoint ''AP-201'', Dest_Continue]) = [] \<and>
   screen (run (Some ''vp-unknown'') [Landing_Continue, Auth_Verified ''3175550123'',
       Dest_PickArrivePoint ''AP-201'', Dest_Continue]) = DESTINATION \<and>
   screen (run (Some ''vp-unknown'') [Landing_Continue, Auth_Verified ''3175550123'',
       Dest_PickLocation ''vp-building-a'', Dest_PickArrivePoint ''AP-201'', Dest_Continue])
     = MERCHANTS_SCREEN \<and>
   locationId (run (Some ''vp-unknown'') [Landing_Continue, Auth_Verified ''3175550123'',
       Dest_PickLocation ''vp-building-a'', Dest_PickArrivePoint ''AP-201'', Dest_Continue])
     \<noteq> ''vp-unknown'' \<and>
   screen (guardrails (initial\<lparr>screen := MERCHANTS_SCREEN,
       user := Some \<lparr>phone = ''3175550123''\<rparr>, locationId := ''vp-unknown''\<rparr>)) = DESTINATION"
proof -
  let ?u = "''vp-unknown''"
  let ?is = "[Landing_Continue, Auth_Verified ''3175550123'',
       Dest_PickArrivePoint ''AP-201'', Dest_Continue]"
  let ?js = "[Landing_Continue, Auth_Verified ''3175550123'',
       Dest_PickLocation ''vp-building-a'', Dest_PickArrivePoint ''AP-201'', Dest_Continue]"
  let ?s = "initial\<lparr>screen := MERCHANTS_SCREEN,
       user := Some \<lparr>phone = ''3175550123''\<rparr>, locationId := ''vp-unknown''\<rparr>"
  have h1: "?u \<notin> set (map loc_id LOCATIONS)" by (simp add: LOCATIONS_def)
  have h2: "locationId (run (Some ?u) ?is) = ?u" by (simp add: run_defs)
  have h3: "screen (run (Some ?u) ?js) = MERCHANTS_SCREEN" by (simp add: run_defs)
  have h4: "locationId ?s = ?u \<and> arrivePointId ?s = [] \<and> user ?s \<noteq> None \<and>
       screen ?s \<noteq> LANDING \<and> screen ?s \<noteq> AUTH \<and> screen ?s \<noteq> DESTINATION"
    by (simp add: initial_def)
  have h5: "screen (run (Some ?u) ?is) \<noteq> LANDING \<and> screen (run (Some ?u) ?is) \<noteq> AUTH"
    by (simp add: run_defs)
  from unknown_deep_link [of ?u ?is ?js ?s] h1 h2 h3 h4 h5
  show ?thesis by (simp del: set_map)
qed

end
